theory Spec2Isabelle
  imports Main "HOL-Library.Log_Nat"
begin

section \<open>The mint sniper: nonce sequencing, fee selection, submission and retry\<close>

text \<open>
  The source file holds two variants of the same program: a script whose functions are
  closures of \<^verbatim>\<open>main\<close> (\<^verbatim>\<open>getPriorityFee\<close>, \<^verbatim>\<open>buildAndSendMint\<close>,
  \<^verbatim>\<open>attemptMintWithBump\<close>) and a class \<^verbatim>\<open>MintSniper\<close> with the methods
  \<^verbatim>\<open>getPriorityFee\<close>, \<^verbatim>\<open>bumpPriority\<close>, \<^verbatim>\<open>buildAndSendMint\<close>, \<^verbatim>\<open>attemptMint\<close>.
  Both use the same class \<^verbatim>\<open>NonceManager\<close>. Where the two variants have the same body
  there is one definition; where they differ there are two.
\<close>

subsection \<open>Results of calls to the chain client\<close>

text \<open>
  Every call to the provider, the wallet or the contract is an \<^verbatim>\<open>await\<close> that either
  returns a value or throws. What the node answers is an input of the model.
\<close>

datatype 'a rpc = Throws | Returns 'a

subsection \<open>JavaScript numbers\<close>

text \<open>
  The nonce counter, \<^verbatim>\<open>feeBumpFactor\<close> and the gwei amounts inside the bump are JavaScript
  numbers: IEEE 754 binary64 values. A finite one is the rational it denotes (the sign
  of zero is not kept: nothing below can observe it). Arithmetic rounds to the nearest representable value,
  ties to the even significand.
\<close>

datatype double = NaN | PosInf | NegInf | Finite rat

text \<open>The binary exponent of a positive rational \<open>r\<close>: \<open>2 powi e \<le> r < 2 powi (e + 1)\<close>.\<close>

definition ilog2 :: "rat \<Rightarrow> int" where
  "ilog2 r =
     (let (p, q) = quotient_of r;
          d = bitlen p - bitlen q
      in if 2 powi d \<le> r then d else d - 1)"

definition nearest_even :: "rat \<Rightarrow> int" where
  "nearest_even q =
     (let n = \<lfloor>q\<rfloor>; d = q - of_int n
      in if d < 1 / 2 then n else if 1 / 2 < d then n + 1 else if even n then n else n + 1)"

text \<open>
  The spacing of the binary64 numbers around a positive rational \<open>r\<close>: 53 significant
  bits; below \<open>2 powi (- 1022)\<close> the spacing stays \<open>2 powi (- 1074)\<close> (subnormal numbers).
\<close>

definition ulp :: "rat \<Rightarrow> rat" where
  "ulp r = 2 powi (max (ilog2 r) (- 1022) - 52)"

text \<open>Rounding a positive rational to the nearest multiple of its spacing.\<close>

definition round_binary64 :: "rat \<Rightarrow> rat" where
  "round_binary64 r = of_int (nearest_even (r / ulp r)) * ulp r"

text \<open>
  The nearest number to a rational; a magnitude that rounds to \<open>2 powi 1024\<close> or more is
  beyond the largest finite number and becomes an infinity.
\<close>

definition toDouble :: "rat \<Rightarrow> double" where
  "toDouble r =
     (if r = 0 then Finite 0
      else let v = round_binary64 \<bar>r\<bar>
           in if 1024 \<le> ilog2 v then (if 0 < r then PosInf else NegInf)
              else Finite (if 0 < r then v else - v))"

text \<open>The operator \<^verbatim>\<open>*\<close> on numbers.\<close>

fun is_negative :: "double \<Rightarrow> bool" where
  "is_negative NegInf = True"
| "is_negative (Finite r) = (r < 0)"
| "is_negative _ = False"

fun times_double :: "double \<Rightarrow> double \<Rightarrow> double" where
  "times_double (Finite a) (Finite b) = toDouble (a * b)"
| "times_double x y =
     (if x = NaN \<or> y = NaN \<or> x = Finite 0 \<or> y = Finite 0 then NaN
      else if is_negative x = is_negative y then PosInf else NegInf)"

text \<open>\<^verbatim>\<open>Math.ceil\<close>\<close>

fun Math_ceil :: "double \<Rightarrow> double" where
  "Math_ceil (Finite r) = Finite (of_int \<lceil>r\<rceil>)"
| "Math_ceil x = x"

text \<open>
  The operator \<^verbatim>\<open>++\<close> on a counter that holds the whole number \<open>n\<close>: the number
  \<open>n + 1\<close>. Up to \<open>2^53\<close> that is the integer \<open>n + 1\<close>; at \<open>2^53\<close> the sum rounds back
  to \<open>2^53\<close>.
\<close>

definition plus_one :: "int \<Rightarrow> int" where
  "plus_one n = (case toDouble (of_int n + 1) of Finite v \<Rightarrow> \<lfloor>v\<rfloor> | _ \<Rightarrow> n)"

subsection \<open>NonceManager\<close>

text \<open>
  \<^verbatim>\<open>private locked = false; private nonce = -1;\<close>
  The counter is a JavaScript number that only ever holds whole numbers (\<open>- 1\<close>,
  transaction counts and their successors); the record keeps the whole number.
\<close>

record NonceManager =
  locked :: bool
  nonce :: int

definition new_NonceManager :: NonceManager where
  "new_NonceManager = \<lparr>locked = False, nonce = - 1\<rparr>"

text \<open>
  \<^verbatim>\<open>async init(address) { this.nonce = await this.provider.getTransactionCount(address, "latest"); }\<close>
\<close>

definition init :: "int rpc \<Rightarrow> NonceManager \<Rightarrow> NonceManager option" where
  "init count m = (case count of Throws \<Rightarrow> None | Returns c \<Rightarrow> Some (m\<lparr>nonce := c\<rparr>))"

text \<open>
  \<^verbatim>\<open>
  async getNonce() {            // next() in the class variant, same body
    while (this.locked) { await new Promise(resolve => setTimeout(resolve, 10)); }
    this.locked = true;
    return this.nonce++;
  }\<close>
  One pass from the loop test on: with the flag set the caller goes to sleep (\<open>None\<close>);
  with the flag clear the loop is left and the rest of the body runs to its \<^verbatim>\<open>return\<close>
  without another \<^verbatim>\<open>await\<close>.
\<close>

definition poll :: "NonceManager \<Rightarrow> (int \<times> NonceManager) option" where
  "poll m =
     (if locked m then None
      else Some (nonce m, m\<lparr>locked := True, nonce := plus_one (nonce m)\<rparr>))"

text \<open>
  The whole call, as one caller sees it. While it sleeps, the other attempts in flight
  change the manager; \<open>later\<close> lists the manager as the caller finds it at each wake-up.
  After the last entry nothing changes the manager any more, and a caller that still
  finds the flag set never returns: \<open>None\<close>.
\<close>

fun getNonce :: "NonceManager list \<Rightarrow> NonceManager \<Rightarrow> (int \<times> NonceManager) option" where
  "getNonce [] m = poll m"
| "getNonce (m' # later) m = (case poll m of Some r \<Rightarrow> Some r | None \<Rightarrow> getNonce later m')"

text \<open>\<^verbatim>\<open>release() { this.locked = false; }\<close>\<close>

definition release :: "NonceManager \<Rightarrow> NonceManager" where
  "release m = m\<lparr>locked := False\<rparr>"

text \<open>
  \<^verbatim>\<open>
  async syncIfBehind(address) { // sync() in the class variant, same body
    const onChainNonce = await this.provider.getTransactionCount(address, "latest");
    if (onChainNonce > this.nonce) { this.nonce = onChainNonce; }
  }\<close>
  \<open>None\<close> is the exception of a failed query.
\<close>

definition syncIfBehind :: "int rpc \<Rightarrow> NonceManager \<Rightarrow> NonceManager option" where
  "syncIfBehind count m =
     (case count of
        Throws \<Rightarrow> None
      | Returns onChainNonce \<Rightarrow>
          Some (if onChainNonce > nonce m then m\<lparr>nonce := onChainNonce\<rparr> else m))"

subsection \<open>Unit conversions of the ethers library\<close>

text \<open>
  \<^verbatim>\<open>ethers.parseUnits(text, "gwei")\<close> and \<^verbatim>\<open>ethers.formatUnits(value, "gwei")\<close> scale by
  \<open>10^9\<close> exactly, in a signed fixed-point format of 512 bits: an amount of wei outside
  \<open>- 2^511 \<le> v < 2^511\<close> makes them throw a numeric fault.
\<close>

datatype call = GetFeeData | PopulateTransaction | SendTransaction | Wait | GetTransactionCount

datatype error =
    WalletNotInitialized
  | ContractNotInitialized
  | CouldNotGetPriorityFee
  | Rejected call
  | InvalidFixedNumber
  | NumericFault

definition gwei :: int where
  "gwei = 10 ^ 9"

definition fits_fixed512 :: "int \<Rightarrow> bool" where
  "fits_fixed512 v = (- (2 ^ 511) \<le> v \<and> v < 2 ^ 511)"

text \<open>\<^verbatim>\<open>ethers.parseUnits(n.toString(), "gwei")\<close> for a bigint \<open>n\<close>.\<close>

definition parseUnits_gwei :: "int \<Rightarrow> error + int" where
  "parseUnits_gwei n = (if fits_fixed512 (n * gwei) then Inr (n * gwei) else Inl NumericFault)"

text \<open>
  \<^verbatim>\<open>Number(ethers.formatUnits(base, "gwei"))\<close> for an amount that fits the format: the
  decimal text of \<open>base / 10^9\<close>, read back as the nearest number.
\<close>

definition Number_formatUnits_gwei :: "int \<Rightarrow> double" where
  "Number_formatUnits_gwei base = toDouble (of_int base / of_int gwei)"

text \<open>
  \<^verbatim>\<open>ethers.parseUnits(String(x), "gwei")\<close> for a number \<open>x\<close> that \<^verbatim>\<open>Math.ceil\<close> returned.
  \<^verbatim>\<open>String\<close> prints \<^verbatim>\<open>NaN\<close>, \<^verbatim>\<open>Infinity\<close> and, from \<open>10^21\<close> on, exponent notation
  (\<^verbatim>\<open>1e+21\<close>), none of which \<^verbatim>\<open>parseUnits\<close> accepts: it throws. Below \<open>2^53\<close> an
  integer-valued number prints as its digits and is read back exactly. Between \<open>2^53\<close> and
  \<open>10^21\<close> \<^verbatim>\<open>String\<close> prints the shortest digits that round-trip, which may differ from
  the exact value from the 17th digit on; the model returns the exact value there, and
  every statement about the value of a bump below is made for results below \<open>2^53\<close> gwei.
  What is accepted is below \<open>10^21\<close> gwei and fits the fixed-point format.
\<close>

fun parseUnits_String_gwei :: "double \<Rightarrow> error + int" where
  "parseUnits_String_gwei (Finite x) =
     (if \<bar>x\<bar> < 10 ^ 21 then Inr (\<lfloor>x\<rfloor> * gwei) else Inl InvalidFixedNumber)"
| "parseUnits_String_gwei _ = Inl InvalidFixedNumber"

subsection \<open>Configuration\<close>

text \<open>
  \<^verbatim>\<open>interface AppConfig\<close>. \<^verbatim>\<open>mintAbi\<close> and \<^verbatim>\<open>mintArgs\<close> are JSON values handed to the
  contract object and read by nothing that is modelled; they are left out.
\<close>

record AppConfig =
  rpcWss :: string
  privateKey :: string
  targetContract :: string
  mintValue :: int
  gasLimit :: int
  maxPriorityFeeGwei :: int
  feeBumpFactor :: double
  dryRun :: bool

text \<open>
  How the process ends when start-up fails: \<^verbatim>\<open>process.exit(code)\<close>, or an exception nobody
  catches.
\<close>

datatype startup_error = Exit nat | Uncaught

text \<open>
  The engine's \<^verbatim>\<open>BigInt(text)\<close> (\<open>None\<close>: a \<^verbatim>\<open>SyntaxError\<close>) and \<^verbatim>\<open>Number(text)\<close> are
  parameters of \<open>buildConfig\<close>.
\<close>

record builtins =
  BigInt :: "string \<Rightarrow> int option"
  Number :: "string \<Rightarrow> double"

text \<open>\<^verbatim>\<open>Boolean(x)\<close> of a number: false for zero and \<^verbatim>\<open>NaN\<close>.\<close>

definition Boolean :: "double \<Rightarrow> bool" where
  "Boolean x = (x \<noteq> NaN \<and> x \<noteq> Finite 0)"

text \<open>\<^verbatim>\<open>!process.env[key]\<close>: the variable is unset or empty.\<close>

definition missing :: "(string \<rightharpoonup> string) \<Rightarrow> string \<Rightarrow> bool" where
  "missing env key = (env key = None \<or> env key = Some [])"

text \<open>\<^verbatim>\<open>process.env[key] ?? fallback\<close>\<close>

definition or_default :: "(string \<rightharpoonup> string) \<Rightarrow> string \<Rightarrow> string \<Rightarrow> string" where
  "or_default env key fallback = (case env key of None \<Rightarrow> fallback | Some v \<Rightarrow> v)"

text \<open>
  \<^verbatim>\<open>
  function buildConfig(): AppConfig {
    const required = ["RPC_WSS", "PRIVATE_KEY", "TARGET_CONTRACT"] as const;
    required.forEach(key => { if (!process.env[key]) { console.error(...); process.exit(1); } });
    if (process.env.PRIVATE_KEY === "0xYOUR_BURNER_PRIVATE_KEY") { console.error(...); process.exit(1); }
    return { rpcWss: process.env.RPC_WSS!, privateKey: process.env.PRIVATE_KEY!, ...
      mintValue: BigInt(process.env.MINT_VALUE ?? "0"),
      gasLimit: BigInt(process.env.GAS_LIMIT ?? "500000"),
      maxPriorityFeeGwei: BigInt(process.env.MAX_PRIORITY_FEE_GWEI ?? "50"),
      feeBumpFactor: Number(process.env.FEE_BUMP_FACTOR ?? "1.5"),
      dryRun: Boolean(Number(process.env.DRY_RUN ?? "1")) };
  }\<close>
  The script variant makes the same two checks at the head of \<^verbatim>\<open>main\<close>
  (\<^verbatim>\<open>if (!RPC_WSS || !PRIVATE_KEY || !TARGET_CONTRACT)\<close>, then the placeholder test).
\<close>

definition buildConfig :: "builtins \<Rightarrow> (string \<rightharpoonup> string) \<Rightarrow> startup_error + AppConfig" where
  "buildConfig js env =
     (if missing env ''RPC_WSS'' \<or> missing env ''PRIVATE_KEY'' \<or> missing env ''TARGET_CONTRACT''
      then Inl (Exit 1)
      else if env ''PRIVATE_KEY'' = Some ''0xYOUR_BURNER_PRIVATE_KEY'' then Inl (Exit 1)
      else
        case (BigInt js (or_default env ''MINT_VALUE'' ''0''),
              BigInt js (or_default env ''GAS_LIMIT'' ''500000''),
              BigInt js (or_default env ''MAX_PRIORITY_FEE_GWEI'' ''50'')) of
          (Some v, Some g, Some c) \<Rightarrow>
            Inr \<lparr>rpcWss = or_default env ''RPC_WSS'' [],
                 privateKey = or_default env ''PRIVATE_KEY'' [],
                 targetContract = or_default env ''TARGET_CONTRACT'' [],
                 mintValue = v, gasLimit = g, maxPriorityFeeGwei = c,
                 feeBumpFactor = Number js (or_default env ''FEE_BUMP_FACTOR'' ''1.5''),
                 dryRun = Boolean (Number js (or_default env ''DRY_RUN'' ''1''))\<rparr>
        | _ \<Rightarrow> Inl Uncaught)"

text \<open>
  A stand-in for the engine's parsers that agrees with them on unsigned decimal literals
  (digits for \<^verbatim>\<open>BigInt\<close>, digits with an optional fraction for \<^verbatim>\<open>Number\<close>; the empty
  string reads as zero) and rejects everything else; it only serves to run \<open>buildConfig\<close>
  on concrete environments.
\<close>

definition digit_value :: "char \<Rightarrow> nat option" where
  "digit_value c =
     (let code = (of_char c :: nat) in if 48 \<le> code \<and> code \<le> 57 then Some (code - 48) else None)"

fun digits_value :: "nat \<Rightarrow> string \<Rightarrow> nat option" where
  "digits_value acc [] = Some acc"
| "digits_value acc (c # cs) =
     (case digit_value c of None \<Rightarrow> None | Some d \<Rightarrow> digits_value (10 * acc + d) cs)"

definition decimal_Number :: "string \<Rightarrow> double" where
  "decimal_Number s =
     (let whole = takeWhile (\<lambda>c. c \<noteq> CHR ''.'') s;
          rest = dropWhile (\<lambda>c. c \<noteq> CHR ''.'') s;
          frac = tl rest
      in case (digits_value 0 whole, digits_value 0 frac) of
           (Some n, Some m) \<Rightarrow>
             if whole = [] \<and> frac = [] \<and> rest \<noteq> [] then NaN
             else toDouble (of_nat n + of_nat m / 10 ^ length frac)
         | _ \<Rightarrow> NaN)"

definition decimal_builtins :: builtins where
  "decimal_builtins =
     \<lparr>BigInt = (\<lambda>s. map_option int (digits_value 0 s)), Number = decimal_Number\<rparr>"

subsection \<open>The sniper's handles and its mutable state\<close>

text \<open>
  What \<^verbatim>\<open>bootstrap\<close> (the head of \<^verbatim>\<open>main\<close> in the script) sets up once: the
  configuration, the wallet (\<^verbatim>\<open>undefined\<close> in a dry run) and the selector of \<^verbatim>\<open>mint\<close>
  (\<^verbatim>\<open>undefined\<close> when the ABI has no such function).
\<close>

record MintSniper =
  cfg :: AppConfig
  wallet :: "string option"
  mintSelector :: "string option"

text \<open>
  The state an attempt changes: the nonce manager, and a log of what the attempt did to
  the outside, kept for the statements below. \<open>attempts\<close> holds the fee of every call of
  \<^verbatim>\<open>buildAndSendMint\<close>, \<open>built\<close> the nonce and fee of every call of
  \<^verbatim>\<open>populateTransaction\<close>, \<open>sends\<close> the nonce and fee of every call of
  \<^verbatim>\<open>sendTransaction\<close>, \<open>releases\<close> counts the calls of \<^verbatim>\<open>release\<close>.
\<close>

record world =
  manager :: NonceManager
  attempts :: "int list"
  built :: "(int \<times> int) list"
  sends :: "(int \<times> int) list"
  releases :: nat

definition new_world :: "NonceManager \<Rightarrow> world" where
  "new_world m = \<lparr>manager = m, attempts = [], built = [], sends = [], releases = 0\<rparr>"

definition do_release :: "world \<Rightarrow> world" where
  "do_release w = w\<lparr>manager := release (manager w), releases := Suc (releases w)\<rparr>"

text \<open>
  \<^verbatim>\<open>receipt.status\<close> is a number or \<^verbatim>\<open>null\<close>; \<^verbatim>\<open>wait(1)\<close> itself may return \<^verbatim>\<open>null\<close>.
  Whether \<^verbatim>\<open>wait\<close> returns the receipt of a reverted transaction or throws is the
  library's choice; both are outcomes of \<open>wait\<close> here.
  What one call of \<^verbatim>\<open>buildAndSendMint\<close> meets: the manager as the other attempts in
  flight leave it at each wake-up of the polling loop, and what the node answers to the
  calls:
\<close>

datatype receipt = Receipt (status: "int option")

record chain =
  wakeups :: "NonceManager list"
  populateTransaction :: "unit rpc"
  sendTransaction :: "unit rpc"
  wait :: "receipt option rpc"
  getTransactionCount :: "int rpc"

text \<open>
  \<^verbatim>\<open>
  private async bootstrap() {
    this.provider = new ethers.WebSocketProvider(this.cfg.rpcWss);
    try { await this.provider.ready; } catch (err) { this.provider.destroy(); process.exit(1); }
    this.wallet = this.cfg.dryRun ? undefined : new Wallet(this.cfg.privateKey, this.provider);
    this.contract = new Contract(...);
    this.mintSelector = new Interface(this.cfg.mintAbi).getFunction("mint")?.selector;
    this.nonceManager = new NonceManager(this.provider);
    if (this.wallet) { await this.nonceManager.init(await this.wallet.getAddress()); }
    else { console.log("Running in DRY_RUN mode. Transactions will not be broadcast."); }
  }\<close>
  The script's \<^verbatim>\<open>main\<close> does the same in the same order. \<open>ready\<close> is the outcome of
  connecting, \<open>selector\<close> what the ABI yields, \<open>count\<close> the node's answer to \<^verbatim>\<open>init\<close>.
\<close>

definition bootstrap ::
  "AppConfig \<Rightarrow> unit rpc \<Rightarrow> string option \<Rightarrow> int rpc \<Rightarrow> startup_error + MintSniper \<times> world" where
  "bootstrap c ready selector count =
     (case ready of
        Throws \<Rightarrow> Inl (Exit 1)
      | Returns _ \<Rightarrow>
          let sn = \<lparr>cfg = c,
                    wallet = (if dryRun c then None else Some (privateKey c)),
                    mintSelector = selector\<rparr>
          in if wallet sn \<noteq> None
             then (case init count new_NonceManager of
                     None \<Rightarrow> Inl Uncaught
                   | Some m \<Rightarrow> Inr (sn, new_world m))
             else Inr (sn, new_world new_NonceManager))"

subsection \<open>Fee selection\<close>

text \<open>
  \<^verbatim>\<open>
  async getPriorityFee(): Promise<bigint> {     // both variants
    const feeData = await this.provider.getFeeData();
    const priority = feeData.maxPriorityFeePerGas;
    if (!priority) throw new Error("Could not fetch priority fee.");
    const maxPriority = ethers.parseUnits(this.cfg.maxPriorityFeeGwei.toString(), "gwei");
    return priority > maxPriority ? maxPriority : priority;
  }\<close>
  \<^verbatim>\<open>maxPriorityFeePerGas\<close> is a bigint or \<^verbatim>\<open>null\<close>; \<^verbatim>\<open>!priority\<close> holds for \<^verbatim>\<open>null\<close> and
  for \<^verbatim>\<open>0n\<close>.
\<close>

definition getPriorityFee :: "AppConfig \<Rightarrow> int option rpc \<Rightarrow> error + int" where
  "getPriorityFee c feeData =
     (case feeData of
        Throws \<Rightarrow> Inl (Rejected GetFeeData)
      | Returns priority \<Rightarrow>
          if priority = None \<or> priority = Some 0 then Inl CouldNotGetPriorityFee
          else
            case parseUnits_gwei (maxPriorityFeeGwei c) of
              Inl err \<Rightarrow> Inl err
            | Inr maxPriority \<Rightarrow>
                Inr (if the priority > maxPriority then maxPriority else the priority))"

text \<open>
  \<^verbatim>\<open>
  private bumpPriority(base: bigint) {
    const baseGwei = Number(ethers.formatUnits(base, "gwei"));
    const bumpedGwei = Math.ceil(baseGwei * this.cfg.feeBumpFactor);
    return ethers.parseUnits(String(bumpedGwei), "gwei");
  }\<close>
  The script has the same three lines inside the \<^verbatim>\<open>catch\<close> of \<^verbatim>\<open>attemptMintWithBump\<close>.
\<close>

definition bumpPriority :: "AppConfig \<Rightarrow> int \<Rightarrow> error + int" where
  "bumpPriority c base =
     (if \<not> fits_fixed512 base then Inl NumericFault
      else
        let baseGwei = Number_formatUnits_gwei base;
            bumpedGwei = Math_ceil (times_double baseGwei (feeBumpFactor c))
        in parseUnits_String_gwei bumpedGwei)"

subsection \<open>Submission\<close>

text \<open>
  The \<^verbatim>\<open>try\<close> block of the class variant, up to but without the \<^verbatim>\<open>finally\<close>:
  \<^verbatim>\<open>
      const sentTx = await signer.sendTransaction(txRequest);
      const receipt = await sentTx.wait(1);
      await nonceMgr.sync(await signer.getAddress());
      return receipt ?? undefined;\<close>
  The calls of \<^verbatim>\<open>console.log\<close> are left out here and below: they change no state.
  Those that print the fee through \<^verbatim>\<open>formatUnits\<close> are given a fee that
  \<^verbatim>\<open>getPriorityFee\<close> or the bump returned, which is in the range of the format unless
  the node suggests a fee below \<open>- 2^511\<close> wei.
\<close>

definition send_and_confirm :: "chain \<Rightarrow> int \<Rightarrow> int \<Rightarrow> world \<Rightarrow> (error + receipt option) \<times> world" where
  "send_and_confirm ch n priorityFee w =
     (let w1 = w\<lparr>sends := sends w @ [(n, priorityFee)]\<rparr>
      in case sendTransaction ch of
           Throws \<Rightarrow> (Inl (Rejected SendTransaction), w1)
         | Returns _ \<Rightarrow>
             (case wait ch of
                Throws \<Rightarrow> (Inl (Rejected Wait), w1)
              | Returns receipt \<Rightarrow>
                  (case syncIfBehind (getTransactionCount ch) (manager w1) of
                     None \<Rightarrow> (Inl (Rejected GetTransactionCount), w1)
                   | Some m \<Rightarrow> (Inr receipt, w1\<lparr>manager := m\<rparr>))))"

text \<open>
  \<^verbatim>\<open>
  private async buildAndSendMint(priorityFee: bigint) {          // class variant
    if (!this.contract || !this.mintSelector) throw new Error("Contract not initialized.");
    const nonceMgr = this.nonceManager;
    const signer = this.wallet;
    if (!nonceMgr) throw new Error("Nonce manager unavailable.");
    const nonce = await nonceMgr.next();
    const txRequest = await this.contract.mint.populateTransaction(...this.cfg.mintArgs,
      { value: ..., gasLimit: ..., maxPriorityFeePerGas: priorityFee, nonce });
    if (this.cfg.dryRun || !signer) { console.log(...); nonceMgr.release(); return undefined; }
    try { ... } finally { nonceMgr.release(); }
  }\<close>
  After \<^verbatim>\<open>bootstrap\<close> the contract and the nonce manager are always there. \<open>None\<close>: the
  call never returns (it polls a flag that is never cleared).
\<close>

definition MintSniper_buildAndSendMint ::
  "MintSniper \<Rightarrow> chain \<Rightarrow> int \<Rightarrow> world \<Rightarrow> ((error + receipt option) \<times> world) option" where
  "MintSniper_buildAndSendMint sn ch priorityFee w0 =
     (let w = w0\<lparr>attempts := attempts w0 @ [priorityFee]\<rparr>
      in if mintSelector sn = None then Some (Inl ContractNotInitialized, w)
         else
           case getNonce (wakeups ch) (manager w) of
             None \<Rightarrow> None
           | Some (n, m) \<Rightarrow>
               let w1 = w\<lparr>manager := m, built := built w @ [(n, priorityFee)]\<rparr>
               in case populateTransaction ch of
                    Throws \<Rightarrow> Some (Inl (Rejected PopulateTransaction), w1)
                  | Returns _ \<Rightarrow>
                      if dryRun (cfg sn) \<or> wallet sn = None
                      then Some (Inr None, do_release w1)
                      else let (r, w2) = send_and_confirm ch n priorityFee w1
                           in Some (r, do_release w2))"

text \<open>
  \<^verbatim>\<open>
  async function buildAndSendMint(priorityFee: bigint) {         // script variant
    if (!wallet) { throw new Error("Wallet not initialized"); }
    const addr = await wallet.getAddress();
    const nonce = await nonceManager.getNonce();
    const tx = await contract.mint.populateTransaction(...MINT_ARGS, { ..., nonce: nonce });
    if (DRY_RUN) { console.log(...); nonceManager.release(); return; }
    try {
      const sent = await wallet.sendTransaction(tx);
      const receipt = await sent.wait(1);
      await nonceManager.syncIfBehind(addr);
      nonceManager.release();
      return receipt ?? undefined;
    } catch (err: any) { nonceManager.release(); throw err; }
  }\<close>
\<close>

definition buildAndSendMint ::
  "MintSniper \<Rightarrow> chain \<Rightarrow> int \<Rightarrow> world \<Rightarrow> ((error + receipt option) \<times> world) option" where
  "buildAndSendMint sn ch priorityFee w0 =
     (let w = w0\<lparr>attempts := attempts w0 @ [priorityFee]\<rparr>
      in if wallet sn = None then Some (Inl WalletNotInitialized, w)
         else
           case getNonce (wakeups ch) (manager w) of
             None \<Rightarrow> None
           | Some (n, m) \<Rightarrow>
               let w1 = w\<lparr>manager := m, built := built w @ [(n, priorityFee)]\<rparr>
               in case populateTransaction ch of
                    Throws \<Rightarrow> Some (Inl (Rejected PopulateTransaction), w1)
                  | Returns _ \<Rightarrow>
                      if dryRun (cfg sn) then Some (Inr None, do_release w1)
                      else
                        case send_and_confirm ch n priorityFee w1 of
                          (Inr receipt, w2) \<Rightarrow> Some (Inr receipt, do_release w2)
                        | (Inl err, w2) \<Rightarrow> Some (Inl err, do_release w2))"

subsection \<open>Retry\<close>

text \<open>What the node answers during one attempt: the fee query, then one or two submissions.\<close>

record answers =
  feeData :: "int option rpc"
  first :: chain
  second :: chain

text \<open>
  \<^verbatim>\<open>
  private async attemptMint() {                                  // class variant
    const basePriority = await this.getPriorityFee();
    try { await this.buildAndSendMint(basePriority); return; }
    catch (err) { console.warn("Initial send failed:", (err as Error).message); }
    const bumped = this.bumpPriority(basePriority);
    try { console.log(...); await this.buildAndSendMint(bumped); }
    catch (err) { console.error("Retry failed:", (err as Error).message); }
  }\<close>
  \<open>Inl\<close>: the exception that leaves \<^verbatim>\<open>attemptMint\<close>; \<open>None\<close>: it never returns.
  The second call starts on the manager as the first call left it: between the
  \<^verbatim>\<open>release\<close> that ends the first call and the second call's first test of the flag
  nothing is awaited that waits for a timer or for the node, so no sleeping caller wakes
  up in between.
\<close>

definition attemptMint :: "MintSniper \<Rightarrow> answers \<Rightarrow> world \<Rightarrow> ((error + unit) \<times> world) option" where
  "attemptMint sn a w =
     (case getPriorityFee (cfg sn) (feeData a) of
        Inl err \<Rightarrow> Some (Inl err, w)
      | Inr basePriority \<Rightarrow>
          (case MintSniper_buildAndSendMint sn (first a) basePriority w of
             None \<Rightarrow> None
           | Some (Inr _, w1) \<Rightarrow> Some (Inr (), w1)
           | Some (Inl _, w1) \<Rightarrow>
               (case bumpPriority (cfg sn) basePriority of
                  Inl err \<Rightarrow> Some (Inl err, w1)
                | Inr bumped \<Rightarrow>
                    (case MintSniper_buildAndSendMint sn (second a) bumped w1 of
                       None \<Rightarrow> None
                     | Some (_, w2) \<Rightarrow> Some (Inr (), w2)))))"

text \<open>
  \<^verbatim>\<open>
  async function attemptMintWithBump() {                          // script variant
    const base = await getPriorityFee();
    try { await buildAndSendMint(base); }
    catch (e) {
      const baseGwei = Number(ethers.formatUnits(base, "gwei"));
      const bumpedGwei = Math.ceil(baseGwei * FEE_BUMP_FACTOR);
      const bumped = ethers.parseUnits(String(bumpedGwei), "gwei");
      console.log(...);
      try { await buildAndSendMint(bumped); }
      catch (err: any) { console.error("Retry also failed:", err?.message ?? err); }
    }
  }\<close>
\<close>

definition attemptMintWithBump ::
  "MintSniper \<Rightarrow> answers \<Rightarrow> world \<Rightarrow> ((error + unit) \<times> world) option" where
  "attemptMintWithBump sn a w =
     (case getPriorityFee (cfg sn) (feeData a) of
        Inl err \<Rightarrow> Some (Inl err, w)
      | Inr base \<Rightarrow>
          (case buildAndSendMint sn (first a) base w of
             None \<Rightarrow> None
           | Some (Inr _, w1) \<Rightarrow> Some (Inr (), w1)
           | Some (Inl _, w1) \<Rightarrow>
               (case bumpPriority (cfg sn) base of
                  Inl err \<Rightarrow> Some (Inl err, w1)
                | Inr bumped \<Rightarrow>
                    (case buildAndSendMint sn (second a) bumped w1 of
                       None \<Rightarrow> None
                     | Some (_, w2) \<Rightarrow> Some (Inr (), w2)))))"

text \<open>
  The loop of \<^verbatim>\<open>handleBlock\<close> over the transactions of a block that match the target
  and the selector: \<^verbatim>\<open>await this.attemptMint()\<close> for one after the other; an exception
  that leaves an attempt ends the loop.
\<close>

fun handleBlock :: "MintSniper \<Rightarrow> answers list \<Rightarrow> world \<Rightarrow> ((error + unit) \<times> world) option" where
  "handleBlock sn [] w = Some (Inr (), w)"
| "handleBlock sn (a # as) w =
     (case attemptMint sn a w of
        None \<Rightarrow> None
      | Some (Inl err, w1) \<Rightarrow> Some (Inl err, w1)
      | Some (Inr _, w1) \<Rightarrow> handleBlock sn as w1)"

subsection \<open>Attempts in flight at the same time\<close>

text \<open>
  The event loop runs one callback at a time and switches only at an \<^verbatim>\<open>await\<close>. A caller
  of \<^verbatim>\<open>getNonce\<close> is either suspended in the polling loop, or has returned with a nonce
  and has not called \<^verbatim>\<open>release\<close> yet, or has called it. Resuming a polling caller
  is one pass of \<open>poll\<close>: the caller sleeps again or leaves \<^verbatim>\<open>getNonce\<close> with a nonce.
  Resuming a holder runs it up to its \<^verbatim>\<open>release()\<close>. A schedule is the order in which
  the event loop resumes the callers.
\<close>

datatype caller = Polling | Holding int | Released int

record system =
  shared :: NonceManager
  callers :: "caller list"
  acquired :: "int list"

text \<open>The nonce \<^verbatim>\<open>getNonce\<close> has returned to a caller, if it has returned.\<close>

fun nonce_of :: "caller \<Rightarrow> int option" where
  "nonce_of Polling = None"
| "nonce_of (Holding n) = Some n"
| "nonce_of (Released n) = Some n"

fun is_holding :: "caller \<Rightarrow> bool" where
  "is_holding (Holding n) = True"
| "is_holding _ = False"

definition holders :: "system \<Rightarrow> nat" where
  "holders s = length (filter is_holding (callers s))"

definition resume :: "nat \<Rightarrow> system \<Rightarrow> system" where
  "resume i s =
     (if length (callers s) \<le> i then s
      else
        case callers s ! i of
          Polling \<Rightarrow>
            (case poll (shared s) of
               None \<Rightarrow> s
             | Some (n, m) \<Rightarrow>
                 s\<lparr>shared := m, callers := (callers s)[i := Holding n],
                   acquired := acquired s @ [n]\<rparr>)
        | Holding n \<Rightarrow> s\<lparr>shared := release (shared s), callers := (callers s)[i := Released n]\<rparr>
        | Released n \<Rightarrow> s)"

fun run :: "nat list \<Rightarrow> system \<Rightarrow> system" where
  "run [] s = s"
| "run (i # sched) s = run sched (resume i s)"

text \<open>
  What caller \<open>i\<close> finds in the manager at each pass of its polling loop under a
  schedule: the states its \<^verbatim>\<open>getNonce\<close> call goes through.
\<close>

fun views :: "nat \<Rightarrow> nat list \<Rightarrow> system \<Rightarrow> NonceManager list" where
  "views i [] s = []"
| "views i (j # sched) s =
     (if j = i \<and> i < length (callers s) \<and> callers s ! i = Polling
      then shared s # views i sched (resume j s)
      else views i sched (resume j s))"

definition start_system :: "int \<Rightarrow> nat \<Rightarrow> system" where
  "start_system c n =
     \<lparr>shared = \<lparr>locked = False, nonce = c\<rparr>, callers = replicate n Polling, acquired = []\<rparr>"

text \<open>The schedule that lets each caller in turn acquire and release.\<close>

definition one_by_one :: "nat \<Rightarrow> nat list" where
  "one_by_one n = concat (map (\<lambda>i. [i, i]) [0..<n])"

subsection \<open>Names for what the statements below talk about\<close>

text \<open>
  The fees of the calls of \<^verbatim>\<open>buildAndSendMint\<close> that an attempt with base fee \<open>base\<close>
  makes, given whether its first call threw: the second call needs the first to throw
  and the bump to return.
\<close>

definition retry_fees :: "AppConfig \<Rightarrow> int \<Rightarrow> bool \<Rightarrow> int list" where
  "retry_fees c base threw =
     base # (if threw then (case bumpPriority c base of Inr bumped \<Rightarrow> [bumped] | Inl err \<Rightarrow> [])
             else [])"

text \<open>One of the three awaited calls inside the \<^verbatim>\<open>try\<close> block throws.\<close>

definition try_block_throws :: "chain \<Rightarrow> bool" where
  "try_block_throws ch =
     (sendTransaction ch = Throws \<or> wait ch = Throws \<or> getTransactionCount ch = Throws)"

text \<open>
  Concrete inputs: the default ceiling of 50 gwei and factor 1.5, a sniper with a wallet
  and one in dry run, a node that accepts everything, and nodes that fail at one call.
\<close>

definition example_config :: AppConfig where
  "example_config =
     \<lparr>rpcWss = ''wss://node.example'', privateKey = ''0xabc'', targetContract = ''0xdef'',
      mintValue = 0, gasLimit = 500000, maxPriorityFeeGwei = 50,
      feeBumpFactor = Finite (3 / 2), dryRun = False\<rparr>"

definition live_sniper :: MintSniper where
  "live_sniper = \<lparr>cfg = example_config, wallet = Some ''0xabc'', mintSelector = Some ''0x1249c58b''\<rparr>"

definition dry_sniper :: MintSniper where
  "dry_sniper =
     \<lparr>cfg = example_config\<lparr>dryRun := True\<rparr>, wallet = None, mintSelector = Some ''0x1249c58b''\<rparr>"

definition accepts :: chain where
  "accepts =
     \<lparr>wakeups = [], populateTransaction = Returns (), sendTransaction = Returns (),
      wait = Returns (Some (Receipt (Some 1))), getTransactionCount = Returns 8\<rparr>"

definition world_at :: "int \<Rightarrow> world" where
  "world_at n = new_world \<lparr>locked = False, nonce = n\<rparr>"

text \<open>The node suggests 80 gwei; the first submission is \<open>ch\<close>, a second one is accepted.\<close>

definition detection :: "chain \<Rightarrow> answers" where
  "detection ch = \<lparr>feeData = Returns (Some 80000000000), first = ch, second = accepts\<rparr>"

text \<open>
  A detection that arrives while another attempt holds nonce 7: the flag is set, it is
  still set at the first wake-up of the polling loop and clear at the second.
\<close>

definition busy_world :: world where
  "busy_world = new_world \<lparr>locked = True, nonce = 8\<rparr>"

definition released_at_second_wakeup :: "NonceManager list" where
  "released_at_second_wakeup = [\<lparr>locked = True, nonce = 8\<rparr>, \<lparr>locked = False, nonce = 8\<rparr>]"


text \<open>An environment with dry run switched on and no \<^verbatim>\<open>PRIVATE_KEY\<close>.\<close>

definition keyless_dry_run :: "string \<rightharpoonup> string" where
  "keyless_dry_run =
     [''RPC_WSS'' \<mapsto> ''wss://node.example'', ''TARGET_CONTRACT'' \<mapsto> ''0xdef'',
      ''DRY_RUN'' \<mapsto> ''1'']"

section \<open>Properties\<close>

subsection \<open>Rounding to binary64\<close>

lemma bitlen_powi_bounds:
  assumes "0 < p"
  shows "(2::rat) powi (bitlen p - 1) \<le> of_int p" "of_int p < (2::rat) powi (bitlen p)"
proof -
  from bitlen_bounds [OF assms]
  have lo: "2 ^ nat (bitlen p - 1) \<le> p" and hi: "p < 2 ^ nat (bitlen p)" by simp_all
  have b1: "1 \<le> bitlen p" using assms by (simp add: bitlen_alt_def)
  have "(2::rat) powi (bitlen p - 1) = 2 ^ nat (bitlen p - 1)"
    using b1 by (simp add: power_int_def)
  also have "\<dots> = of_int (2 ^ nat (bitlen p - 1))" by simp
  also have "\<dots> \<le> of_int p" using lo by (simp only: of_int_le_iff)
  finally show "(2::rat) powi (bitlen p - 1) \<le> of_int p" .
  have "(of_int p :: rat) < of_int (2 ^ nat (bitlen p))" using hi by (simp only: of_int_less_iff)
  also have "\<dots> = 2 ^ nat (bitlen p)" by simp
  also have "\<dots> = (2::rat) powi (bitlen p)" using b1 by (simp add: power_int_def)
  finally show "of_int p < (2::rat) powi (bitlen p)" .
qed

lemma ilog2_bounds:
  assumes "0 < r"
  shows "2 powi (ilog2 r) \<le> r" "r < 2 powi (ilog2 r + 1)"
proof -
  obtain p q where pq: "quotient_of r = (p, q)" by (cases "quotient_of r")
  then have q: "0 < q" and r: "r = of_int p / of_int q"
    by (simp_all add: quotient_of_denom_pos quotient_of_div)
  from assms r q have p: "0 < p" by (simp add: zero_less_divide_iff)
  let ?d = "bitlen p - bitlen q"
  note bp = bitlen_powi_bounds [OF p] and bq = bitlen_powi_bounds [OF q]
  have qpos: "(0::rat) < of_int q" using q by simp
  have up: "r < 2 powi (?d + 1)"
  proof -
    have "of_int p < (2::rat) powi (bitlen p)" by (rule bp)
    also have "\<dots> = 2 powi (?d + 1) * 2 powi (bitlen q - 1)"
      by (simp add: power_int_add [symmetric])
    also have "\<dots> \<le> 2 powi (?d + 1) * of_int q"
      using bq(1) by (intro mult_left_mono) simp_all
    finally show ?thesis using qpos by (simp add: r pos_divide_less_eq)
  qed
  have lo: "2 powi (?d - 1) \<le> r"
  proof -
    have "2 powi (?d - 1) * of_int q \<le> 2 powi (?d - 1) * (2::rat) powi (bitlen q)"
      using bq(2) by (intro mult_left_mono) simp_all
    also have "\<dots> = 2 powi (bitlen p - 1)" by (simp add: power_int_add [symmetric])
    also have "\<dots> \<le> of_int p" by (rule bp)
    finally show ?thesis using qpos by (simp add: r pos_le_divide_eq)
  qed
  show "2 powi (ilog2 r) \<le> r" using lo by (simp add: ilog2_def pq Let_def)
  show "r < 2 powi (ilog2 r + 1)" using up by (auto simp: ilog2_def pq Let_def not_le)
qed

lemma nearest_even_bounds:
  "\<lfloor>q\<rfloor> \<le> nearest_even q" "nearest_even q \<le> \<lceil>q\<rceil>" "q - 1 / 2 \<le> of_int (nearest_even q)"
proof -
  show "\<lfloor>q\<rfloor> \<le> nearest_even q" by (simp add: nearest_even_def Let_def)
  have c: "q \<noteq> of_int \<lfloor>q\<rfloor> \<Longrightarrow> \<lceil>q\<rceil> = \<lfloor>q\<rfloor> + 1"
    by (metis ceiling_altdef)
  show "nearest_even q \<le> \<lceil>q\<rceil>"
    using c by (auto simp: nearest_even_def Let_def intro: floor_le_ceiling)
  have "q - of_int \<lfloor>q\<rfloor> < 1" by linarith
  then show "q - 1 / 2 \<le> of_int (nearest_even q)"
    by (auto simp: nearest_even_def Let_def)
qed


lemma ulp_pos: "0 < ulp r"
  by (simp add: ulp_def)

lemma round_binary64_ulp: "round_binary64 r = of_int (nearest_even (r / ulp r)) * ulp r"
  by (simp add: round_binary64_def)

lemma round_binary64_between:
  "of_int \<lfloor>r / ulp r\<rfloor> * ulp r \<le> round_binary64 r"
  "round_binary64 r \<le> of_int \<lceil>r / ulp r\<rceil> * ulp r"
  "r - ulp r / 2 \<le> round_binary64 r"
proof -
  note b = nearest_even_bounds [of "r / ulp r"]
  show "of_int \<lfloor>r / ulp r\<rfloor> * ulp r \<le> round_binary64 r"
    unfolding round_binary64_ulp using b(1) ulp_pos [of r]
    by (intro mult_right_mono) simp_all
  show "round_binary64 r \<le> of_int \<lceil>r / ulp r\<rceil> * ulp r"
    unfolding round_binary64_ulp using b(2) ulp_pos [of r]
    by (intro mult_right_mono) simp_all
  have "(r / ulp r - 1 / 2) * ulp r \<le> of_int (nearest_even (r / ulp r)) * ulp r"
    using b(3) ulp_pos [of r] by (intro mult_right_mono) simp_all
  moreover have "(r / ulp r - 1 / 2) * ulp r = r - ulp r / 2"
    using ulp_pos [of r] by (simp add: field_simps)
  ultimately show "r - ulp r / 2 \<le> round_binary64 r"
    by (simp add: round_binary64_ulp)
qed

text \<open>
  A multiple \<open>m * 2 powi k\<close> of a power of two with \<open>m < 2^53\<close> and \<open>k \<ge> - 1074\<close> is a
  binary64 number. Seen from a positive \<open>r\<close> it is either a whole number of spacings of
  \<open>r\<close>, or it lies below the binade of \<open>r\<close>.
\<close>

lemma double_as_spacings:
  assumes "0 < r" "0 \<le> m" "m < 2 ^ 53" "- 1074 \<le> k"
  shows "(\<exists>j. of_int m * 2 powi k = of_int j * ulp r)
    \<or> of_int m * 2 powi k < (2::rat) powi (ilog2 r) \<and> - 1022 \<le> ilog2 r"
proof (cases "max (ilog2 r) (- 1022) - 52 \<le> k")
  case True
  let ?e = "max (ilog2 r) (- 1022) - 52"
  have "(2::rat) powi k = 2 powi (k - ?e) * 2 powi ?e"
    by (simp add: power_int_add [symmetric])
  also have "(2::rat) powi (k - ?e) = of_int (2 ^ nat (k - ?e))"
    using True by (simp add: power_int_def)
  finally have "of_int m * 2 powi k = of_int (m * 2 ^ nat (k - ?e)) * ulp r"
    by (simp add: ulp_def)
  then show ?thesis by blast
next
  case False
  then have e: "k + 52 < ilog2 r" "- 1022 \<le> ilog2 r" using assms(4) by auto
  have "of_int m * (2::rat) powi k < 2 ^ 53 * 2 powi k"
    using assms(3) by (intro mult_strict_right_mono) (simp_all add: of_int_less_numeral_power_cancel_iff)
  also have "\<dots> = 2 powi (k + 53)" by (simp add: power_int_add)
  also have "\<dots> \<le> 2 powi (ilog2 r)" using e by (intro power_int_increasing) simp_all
  finally show ?thesis using e by simp
qed

lemma binade_in_spacings:
  assumes "0 < r" "- 1022 \<le> ilog2 r"
  shows "2 powi (ilog2 r) = 2 ^ 52 * ulp r"
proof -
  from assms(2) have "ulp r = 2 powi (ilog2 r - 52)" by (simp add: ulp_def max_def)
  then show ?thesis by (simp add: power_int_diff)
qed

text \<open>Rounding never crosses a binary64 number.\<close>

lemma round_binary64_lower:
  assumes "0 < r" "0 \<le> m" "m < 2 ^ 53" "- 1074 \<le> k" "of_int m * 2 powi k \<le> r"
  shows "of_int m * 2 powi k \<le> round_binary64 r"
proof -
  let ?y = "of_int m * (2::rat) powi k"
  have fl: "of_int \<lfloor>r / ulp r\<rfloor> * ulp r \<le> round_binary64 r" by (rule round_binary64_between)
  from double_as_spacings [OF assms(1-4)] show ?thesis
  proof
    assume "\<exists>j. ?y = of_int j * ulp r"
    then obtain j where j: "?y = of_int j * ulp r" ..
    with assms(5) have "of_int j \<le> r / ulp r" using ulp_pos [of r] by (simp add: pos_le_divide_eq)
    then have "j \<le> \<lfloor>r / ulp r\<rfloor>" by (simp add: le_floor_iff)
    then have "of_int j * ulp r \<le> of_int \<lfloor>r / ulp r\<rfloor> * ulp r"
      using ulp_pos [of r] by (intro mult_right_mono) simp_all
    with j fl show ?thesis by simp
  next
    assume a: "?y < 2 powi (ilog2 r) \<and> - 1022 \<le> ilog2 r"
    from ilog2_bounds(1) [OF assms(1)] binade_in_spacings [OF assms(1)] a
    have "2 ^ 52 * ulp r \<le> r" by simp
    then have "(2::rat) ^ 52 \<le> r / ulp r" using ulp_pos [of r] by (simp add: pos_le_divide_eq)
    then have "(of_int (2 ^ 52) :: rat) \<le> r / ulp r" by simp
    then have "2 ^ 52 \<le> \<lfloor>r / ulp r\<rfloor>" by (simp only: le_floor_iff)
    then have "(of_int (2 ^ 52) :: rat) * ulp r \<le> of_int \<lfloor>r / ulp r\<rfloor> * ulp r"
      using ulp_pos [of r] by (intro mult_right_mono) (simp_all only: of_int_le_iff)
    with a binade_in_spacings [OF assms(1)] fl show ?thesis by simp
  qed
qed

lemma round_binary64_upper:
  assumes "0 < r" "0 \<le> m" "m < 2 ^ 53" "- 1074 \<le> k" "r \<le> of_int m * 2 powi k"
  shows "round_binary64 r \<le> of_int m * 2 powi k"
proof -
  let ?z = "of_int m * (2::rat) powi k"
  have ce: "round_binary64 r \<le> of_int \<lceil>r / ulp r\<rceil> * ulp r" by (rule round_binary64_between)
  from double_as_spacings [OF assms(1-4)] show ?thesis
  proof
    assume "\<exists>j. ?z = of_int j * ulp r"
    then obtain j where j: "?z = of_int j * ulp r" ..
    with assms(5) have "r / ulp r \<le> of_int j" using ulp_pos [of r] by (simp add: pos_divide_le_eq)
    then have "\<lceil>r / ulp r\<rceil> \<le> j" by (simp add: ceiling_le_iff)
    then have "of_int \<lceil>r / ulp r\<rceil> * ulp r \<le> of_int j * ulp r"
      using ulp_pos [of r] by (intro mult_right_mono) simp_all
    with j ce show ?thesis by simp
  next
    assume "?z < 2 powi (ilog2 r) \<and> - 1022 \<le> ilog2 r"
    with ilog2_bounds(1) [OF assms(1)] assms(5) show ?thesis by simp
  qed
qed

text \<open>The result of rounding is a binary64 number.\<close>

lemma round_binary64_is_double:
  assumes "0 < r"
  shows "\<exists>m k. round_binary64 r = of_int m * 2 powi k \<and> 0 \<le> m \<and> m < 2 ^ 53 \<and> - 1074 \<le> k"
proof -
  let ?e = "max (ilog2 r) (- 1022)"
  let ?n = "nearest_even (r / ulp r)"
  have u: "ulp r = 2 powi (?e - 52)" by (simp add: ulp_def)
  have "r < 2 powi (ilog2 r + 1)" by (rule ilog2_bounds [OF assms])
  also have "\<dots> \<le> 2 powi (?e + 1)" by (intro power_int_increasing) simp_all
  also have "\<dots> = 2 ^ 53 * ulp r" by (simp add: u power_int_diff power_int_add)
  finally have "r / ulp r < 2 ^ 53" using ulp_pos [of r] by (simp add: pos_divide_less_eq)
  then have "r / ulp r \<le> of_int (2 ^ 53)" by simp
  then have "\<lceil>r / ulp r\<rceil> \<le> 2 ^ 53" by (simp only: ceiling_le_iff)
  with nearest_even_bounds(2) [of "r / ulp r"] have hi: "?n \<le> 2 ^ 53" by (rule order_trans)
  have "0 \<le> r / ulp r" using assms ulp_pos [of r] by simp
  then have "0 \<le> \<lfloor>r / ulp r\<rfloor>" by simp
  from this nearest_even_bounds(1) [of "r / ulp r"] have lo: "0 \<le> ?n" by (rule order_trans)
  show ?thesis
  proof (cases "?n = 2 ^ 53")
    case True
    have "round_binary64 r = of_int (2 ^ 53) * ulp r"
      by (simp only: round_binary64_ulp True)
    also have "\<dots> = of_int (2 ^ 52) * 2 powi (?e - 51)"
      by (simp add: u power_int_diff)
    finally have "round_binary64 r = of_int (2 ^ 52) * 2 powi (?e - 51)" .
    moreover have "- 1074 \<le> ?e - 51" by simp
    moreover have "(0::int) \<le> 2 ^ 52" "(2::int) ^ 52 < 2 ^ 53" by simp_all
    ultimately show ?thesis by blast
  next
    case False
    with hi have "?n < 2 ^ 53" by simp
    moreover have "- 1074 \<le> ?e - 52" by simp
    moreover have "round_binary64 r = of_int ?n * 2 powi (?e - 52)"
      by (simp only: round_binary64_ulp u)
    ultimately show ?thesis using lo by blast
  qed
qed


lemma ilog2_zero: "ilog2 0 = - 2"
  by code_simp

lemma toDouble_pos:
  assumes "0 < r" "round_binary64 r < 2 powi 1024"
  shows "toDouble r = Finite (round_binary64 r)"
proof -
  have "ilog2 (round_binary64 r) < 1024"
  proof (cases "0 < round_binary64 r")
    case True
    from ilog2_bounds(1) [OF True] assms(2)
    have "(2::rat) powi ilog2 (round_binary64 r) < 2 powi 1024" by (rule le_less_trans)
    then show ?thesis by (rule power_int_le_imp_less_exp [rotated]) simp_all
  next
    case False
    have "0 \<le> r / ulp r" using assms(1) ulp_pos [of r] by simp
    then have "0 \<le> of_int \<lfloor>r / ulp r\<rfloor> * ulp r" using ulp_pos [of r] by simp
    from this round_binary64_between(1) [of r] have "0 \<le> round_binary64 r"
      by (rule order_trans)
    with False have "round_binary64 r = 0" by simp
    then show ?thesis by (simp add: ilog2_zero)
  qed
  with assms(1) show ?thesis by (simp add: toDouble_def Let_def)
qed

lemma whole_is_double:
  assumes "0 \<le> m" "m < 2 ^ 53"
  shows "(of_int m :: rat) = of_int m * 2 powi 0" "0 \<le> m" "m < 2 ^ 53" "(- 1074::int) \<le> 0"
  using assms by simp_all


text \<open>Whole numbers up to \<open>2^53\<close> in size are binary64 numbers.\<close>

lemma round_binary64_whole:
  assumes "0 < k" "k \<le> 2 ^ 53"
  shows "round_binary64 (of_int k) = of_int k"
proof -
  have pos: "(0::rat) < of_int k" using assms(1) by simp
  have "\<exists>m e. (of_int k :: rat) = of_int m * 2 powi e \<and> 0 \<le> m \<and> m < 2 ^ 53 \<and> - 1074 \<le> e"
  proof (cases "k = 2 ^ 53")
    case True
    have "(of_int k :: rat) = of_int (2 ^ 52) * 2 powi 1" by (simp add: True)
    moreover have "(0::int) \<le> 2 ^ 52" "(2::int) ^ 52 < 2 ^ 53" "(- 1074::int) \<le> 1" by simp_all
    ultimately show ?thesis by blast
  next
    case False
    with assms have "(of_int k :: rat) = of_int k * 2 powi 0" "0 \<le> k" "k < 2 ^ 53"
      "(- 1074::int) \<le> 0" by simp_all
    then show ?thesis by blast
  qed
  then obtain m e where me: "(of_int k :: rat) = of_int m * 2 powi e" "0 \<le> m" "m < 2 ^ 53"
    "- 1074 \<le> e" by blast
  have "of_int m * 2 powi e \<le> (of_int k :: rat)" "(of_int k :: rat) \<le> of_int m * 2 powi e"
    using me(1) by simp_all
  from round_binary64_lower [OF pos me(2,3,4) this(1)] round_binary64_upper [OF pos me(2,3,4) this(2)]
  show ?thesis using me(1) by simp
qed

lemma toDouble_whole:
  assumes "\<bar>k\<bar> \<le> 2 ^ 53"
  shows "toDouble (of_int k) = Finite (of_int k)"
proof (cases "k = 0")
  case True
  then show ?thesis by (simp add: toDouble_def)
next
  case False
  then have a: "0 < \<bar>k\<bar>" by simp
  from round_binary64_whole [OF a assms]
  have r: "round_binary64 \<bar>of_int k\<bar> = of_int \<bar>k\<bar>" by simp
  have "(of_int \<bar>k\<bar> :: rat) \<le> of_int (2 ^ 53)" using assms by (simp only: of_int_le_iff)
  also have "\<dots> < 2 powi 1024" by simp
  finally have "(2::rat) powi ilog2 (of_int \<bar>k\<bar>) < 2 powi 1024"
    using ilog2_bounds(1) [of "of_int \<bar>k\<bar>"] a by simp
  then have "ilog2 (of_int \<bar>k\<bar>) < 1024" by (rule power_int_le_imp_less_exp [rotated]) simp_all
  with False show ?thesis by (auto simp: toDouble_def r Let_def simp del: of_int_abs)
qed

text \<open>Up to \<open>2^53\<close> the operator \<^verbatim>\<open>++\<close> counts; at \<open>2^53\<close> it stands still.\<close>

lemma plus_one_exact:
  assumes "- (2 ^ 53) \<le> n + 1" "n + 1 \<le> 2 ^ 53"
  shows "plus_one n = n + 1"
proof -
  from assms have "\<bar>n + 1\<bar> \<le> 2 ^ 53" by simp
  from toDouble_whole [OF this] show ?thesis by (simp add: plus_one_def)
qed

lemma plus_one_stuck: "plus_one (2 ^ 53) = 2 ^ 53"
  by code_simp

subsection \<open>NonceManager\<close>

lemma getNonce_unlocked:
  "\<not> locked m \<Longrightarrow>
     getNonce later m = Some (nonce m, m\<lparr>locked := True, nonce := plus_one (nonce m)\<rparr>)"
  by (cases later) (simp_all add: poll_def)


lemma getNonce_never_released:
  "locked m \<Longrightarrow> \<forall>x\<in>set later. locked x \<Longrightarrow> getNonce later m = None"
  by (induction later arbitrary: m) (simp_all add: poll_def)

text \<open>
  C7: a resync never lowers the counter. For every count the chain reports, also one below
  the local counter, the counter afterwards is the maximum of the old counter and the
  reported count; the lock flag is untouched.
\<close>

theorem C7_resync_is_max:
  "\<exists>m'. syncIfBehind (Returns c) m = Some m' \<and> nonce m' = max (nonce m) c
     \<and> nonce m \<le> nonce m' \<and> locked m' = locked m"
  by (simp add: syncIfBehind_def)

subsection \<open>One call of buildAndSendMint\<close>

lemma send_and_confirm_post:
  assumes "send_and_confirm ch n fee w = (r, w')"
  shows "locked (manager w') = locked (manager w)" "attempts w' = attempts w"
    "built w' = built w" "releases w' = releases w" "sends w' = sends w @ [(n, fee)]"
    "nonce (manager w) \<le> nonce (manager w')"
    "isl r = try_block_throws ch" "isl r \<Longrightarrow> manager w' = manager w"
  using assms
  by (auto simp: send_and_confirm_def try_block_throws_def syncIfBehind_def Let_def
           split: rpc.splits if_splits)

text \<open>
  Once the caller has its nonce and the transaction is built, every path of the class
  variant returns, with the flag clear and exactly one \<^verbatim>\<open>release\<close>; it throws exactly
  when the \<^verbatim>\<open>try\<close> block does, and then the counter is where \<^verbatim>\<open>getNonce\<close> left it.
\<close>

lemma class_call_built:
  assumes "mintSelector sn \<noteq> None" "getNonce (wakeups ch) (manager w) = Some (n, m)"
    and "populateTransaction ch = Returns u"
  shows "\<exists>r w'. MintSniper_buildAndSendMint sn ch fee w = Some (r, w')
     \<and> \<not> locked (manager w') \<and> releases w' = Suc (releases w)
     \<and> attempts w' = attempts w @ [fee] \<and> built w' = built w @ [(n, fee)]
     \<and> nonce m \<le> nonce (manager w')
     \<and> (isl r \<longleftrightarrow> \<not> dryRun (cfg sn) \<and> wallet sn \<noteq> None \<and> try_block_throws ch)
     \<and> (isl r \<longrightarrow> nonce (manager w') = nonce m)
     \<and> sends w' = sends w @
          (if dryRun (cfg sn) \<or> wallet sn = None then [] else [(n, fee)])"
proof (cases "dryRun (cfg sn) \<or> wallet sn = None")
  case True
  with assms show ?thesis
    by (auto simp: MintSniper_buildAndSendMint_def do_release_def release_def Let_def)
next
  case False
  let ?w1 = "w\<lparr>attempts := attempts w @ [fee], manager := m,
               built := built w @ [(n, fee)]\<rparr>"
  obtain r w2 where sc: "send_and_confirm ch n fee ?w1 = (r, w2)"
    by (cases "send_and_confirm ch n fee ?w1") blast
  from False assms have "mintSelector sn \<noteq> None" "\<not> dryRun (cfg sn)" "wallet sn \<noteq> None"
    by simp_all
  then have "MintSniper_buildAndSendMint sn ch fee w = Some (r, do_release w2)"
    by (auto simp: MintSniper_buildAndSendMint_def Let_def assms(2,3) sc)
  moreover note send_and_confirm_post [OF sc]
  ultimately show ?thesis using False
    by (auto simp: do_release_def release_def)
qed

text \<open>The same for the script variant.\<close>

lemma script_call_built:
  assumes "wallet sn \<noteq> None" "getNonce (wakeups ch) (manager w) = Some (n, m)"
    and "populateTransaction ch = Returns u"
  shows "\<exists>r w'. buildAndSendMint sn ch fee w = Some (r, w')
     \<and> \<not> locked (manager w') \<and> releases w' = Suc (releases w)
     \<and> attempts w' = attempts w @ [fee] \<and> built w' = built w @ [(n, fee)]
     \<and> nonce m \<le> nonce (manager w')
     \<and> (isl r \<longleftrightarrow> \<not> dryRun (cfg sn) \<and> try_block_throws ch)
     \<and> (isl r \<longrightarrow> nonce (manager w') = nonce m)
     \<and> sends w' = sends w @ (if dryRun (cfg sn) then [] else [(n, fee)])"
proof (cases "dryRun (cfg sn)")
  case True
  with assms show ?thesis
    by (auto simp: buildAndSendMint_def do_release_def release_def Let_def)
next
  case False
  let ?w1 = "w\<lparr>attempts := attempts w @ [fee], manager := m,
               built := built w @ [(n, fee)]\<rparr>"
  obtain r w2 where sc: "send_and_confirm ch n fee ?w1 = (r, w2)"
    by (cases "send_and_confirm ch n fee ?w1") blast
  have "buildAndSendMint sn ch fee w = Some (r, do_release w2)"
    by (cases r) (simp_all add: buildAndSendMint_def Let_def assms False sc)
  moreover note send_and_confirm_post [OF sc]
  ultimately show ?thesis using False
    by (auto simp: do_release_def release_def)
qed

lemma class_call_build_fails:
  assumes "mintSelector sn \<noteq> None" "getNonce (wakeups ch) (manager w) = Some (n, m)"
    and "populateTransaction ch = Throws"
  shows "MintSniper_buildAndSendMint sn ch fee w =
     Some (Inl (Rejected PopulateTransaction),
           w\<lparr>attempts := attempts w @ [fee], manager := m, built := built w @ [(n, fee)]\<rparr>)"
  using assms by (auto simp: MintSniper_buildAndSendMint_def Let_def)

lemma script_call_build_fails:
  assumes "wallet sn \<noteq> None" "getNonce (wakeups ch) (manager w) = Some (n, m)"
    and "populateTransaction ch = Throws"
  shows "buildAndSendMint sn ch fee w =
     Some (Inl (Rejected PopulateTransaction),
           w\<lparr>attempts := attempts w @ [fee], manager := m, built := built w @ [(n, fee)]\<rparr>)"
  using assms by (auto simp: buildAndSendMint_def Let_def)

lemma class_call_attempts:
  "MintSniper_buildAndSendMint sn ch fee w = Some (r, w') \<Longrightarrow> attempts w' = attempts w @ [fee]"
  by (auto simp: MintSniper_buildAndSendMint_def Let_def do_release_def
        dest: send_and_confirm_post(2)
        split: if_splits option.splits rpc.splits prod.splits)

lemma script_call_attempts:
  "buildAndSendMint sn ch fee w = Some (r, w') \<Longrightarrow> attempts w' = attempts w @ [fee]"
  by (auto simp: buildAndSendMint_def Let_def do_release_def
        dest: send_and_confirm_post(2)
        split: if_splits option.splits rpc.splits prod.splits sum.splits)


lemma fee_example:
  "getPriorityFee example_config (Returns (Some 80000000000)) = Inr 50000000000"
  by code_simp

lemmas example_defs =
  live_sniper_def dry_sniper_def accepts_def world_at_def new_world_def detection_def

subsection \<open>The release invariant\<close>

text \<open>
  C2: every path through the submitter after a successful allocation calls \<^verbatim>\<open>release\<close>
  exactly once, also when building the transaction throws. The code does not: in both
  variants \<^verbatim>\<open>populateTransaction\<close> is awaited between the allocation and the \<^verbatim>\<open>try\<close>
  block, so when it throws the exception leaves \<^verbatim>\<open>buildAndSendMint\<close> with no
  \<^verbatim>\<open>release\<close> at all, the flag stays set, and the next \<^verbatim>\<open>getNonce\<close> never returns.
  (On every path on which the transaction is built there is exactly one \<^verbatim>\<open>release\<close>:
  \<open>class_call_built\<close>, \<open>script_call_built\<close>.)
\<close>

theorem C2_build_failure_skips_release:
  assumes "mintSelector sn \<noteq> None" "wallet sn \<noteq> None" "\<not> locked (manager w)"
    and "populateTransaction ch = Throws"
  shows "(\<exists>w'. MintSniper_buildAndSendMint sn ch fee w = Some (Inl (Rejected PopulateTransaction), w')
            \<and> releases w' = releases w \<and> locked (manager w') \<and> getNonce [] (manager w') = None)
       \<and> (\<exists>w'. buildAndSendMint sn ch fee w = Some (Inl (Rejected PopulateTransaction), w')
            \<and> releases w' = releases w \<and> locked (manager w') \<and> getNonce [] (manager w') = None)"
proof -
  note g = getNonce_unlocked [OF assms(3), of "wakeups ch"]
  from class_call_build_fails [OF assms(1) g assms(4), of fee]
    script_call_build_fails [OF assms(2) g assms(4), of fee]
  show ?thesis by (simp add: poll_def)
qed

theorem C2_build_failure_skips_release_witness:
  "(\<exists>w'. MintSniper_buildAndSendMint live_sniper (accepts\<lparr>populateTransaction := Throws\<rparr>)
             50000000000 (world_at 7) = Some (Inl (Rejected PopulateTransaction), w')
          \<and> releases w' = 0 \<and> locked (manager w') \<and> getNonce [] (manager w') = None)
   \<and> (\<exists>w'. buildAndSendMint live_sniper (accepts\<lparr>populateTransaction := Throws\<rparr>)
             50000000000 (world_at 7) = Some (Inl (Rejected PopulateTransaction), w')
          \<and> releases w' = 0 \<and> locked (manager w') \<and> getNonce [] (manager w') = None)"
  using C2_build_failure_skips_release
    [of live_sniper "world_at 7" "accepts\<lparr>populateTransaction := Throws\<rparr>" 50000000000]
  by (simp add: example_defs)


subsection \<open>One attempt: when a second submission is made\<close>

lemma class_call_throws_iff:
  assumes "MintSniper_buildAndSendMint sn ch fee w = Some (r, w')"
  shows "isl r \<longleftrightarrow> mintSelector sn = None \<or> populateTransaction ch = Throws
           \<or> (\<not> dryRun (cfg sn) \<and> wallet sn \<noteq> None \<and> try_block_throws ch)"
proof (cases "mintSelector sn = None")
  case True
  with assms show ?thesis by (auto simp: MintSniper_buildAndSendMint_def Let_def)
next
  case sel: False
  from assms sel obtain n m where g: "getNonce (wakeups ch) (manager w) = Some (n, m)"
    by (auto simp: MintSniper_buildAndSendMint_def Let_def split: option.splits)
  show ?thesis
  proof (cases "populateTransaction ch")
    case Throws
    from class_call_build_fails [OF sel g Throws, of fee] assms Throws show ?thesis by auto
  next
    case (Returns u)
    from class_call_built [OF sel g Returns, of fee] assms sel Returns show ?thesis by auto
  qed
qed

lemma script_call_throws_iff:
  assumes "buildAndSendMint sn ch fee w = Some (r, w')"
  shows "isl r \<longleftrightarrow> wallet sn = None \<or> populateTransaction ch = Throws
           \<or> (\<not> dryRun (cfg sn) \<and> try_block_throws ch)"
proof (cases "wallet sn = None")
  case True
  with assms show ?thesis by (auto simp: buildAndSendMint_def Let_def)
next
  case wal: False
  from assms wal obtain n m where g: "getNonce (wakeups ch) (manager w) = Some (n, m)"
    by (auto simp: buildAndSendMint_def Let_def split: option.splits)
  show ?thesis
  proof (cases "populateTransaction ch")
    case Throws
    from script_call_build_fails [OF wal g Throws, of fee] assms Throws show ?thesis by auto
  next
    case (Returns u)
    from script_call_built [OF wal g Returns, of fee] assms wal Returns show ?thesis by auto
  qed
qed

text \<open>
  What an orchestrator does after its first call has come back: it returns with one
  call made, or with two, or it hangs inside the second call.
\<close>

lemma class_attempt_after_first:
  assumes fee: "getPriorityFee (cfg sn) (feeData a) = Inr base"
    and c1: "MintSniper_buildAndSendMint sn (first a) base w = Some (r1, w1)"
  shows "case attemptMint sn a w of
           Some (res, w') \<Rightarrow> attempts w' = attempts w @ retry_fees (cfg sn) base (isl r1)
         | None \<Rightarrow> isl r1 \<and> (\<exists>bumped. bumpPriority (cfg sn) base = Inr bumped
                      \<and> MintSniper_buildAndSendMint sn (second a) bumped w1 = None)"
proof (cases r1)
  case (Inr rc)
  with fee c1 class_call_attempts [OF c1] show ?thesis
    by (simp add: attemptMint_def retry_fees_def)
next
  case e: (Inl err)
  show ?thesis
  proof (cases "bumpPriority (cfg sn) base")
    case (Inl err2)
    with e fee c1 class_call_attempts [OF c1] show ?thesis
      by (simp add: attemptMint_def retry_fees_def)
  next
    case b: (Inr bumped)
    show ?thesis
    proof (cases "MintSniper_buildAndSendMint sn (second a) bumped w1")
      case None
      with e b fee c1 show ?thesis by (simp add: attemptMint_def)
    next
      case (Some p)
      obtain r2 w2 where p: "p = (r2, w2)" by (cases p) blast
      from class_call_attempts [OF Some [unfolded p]] class_call_attempts [OF c1]
        Some p e b fee c1
      show ?thesis by (simp add: attemptMint_def retry_fees_def)
    qed
  qed
qed

lemma script_attempt_after_first:
  assumes fee: "getPriorityFee (cfg sn) (feeData a) = Inr base"
    and c1: "buildAndSendMint sn (first a) base w = Some (r1, w1)"
  shows "case attemptMintWithBump sn a w of
           Some (res, w') \<Rightarrow> attempts w' = attempts w @ retry_fees (cfg sn) base (isl r1)
         | None \<Rightarrow> isl r1 \<and> (\<exists>bumped. bumpPriority (cfg sn) base = Inr bumped
                      \<and> buildAndSendMint sn (second a) bumped w1 = None)"
proof (cases r1)
  case (Inr rc)
  with fee c1 script_call_attempts [OF c1] show ?thesis
    by (simp add: attemptMintWithBump_def retry_fees_def)
next
  case e: (Inl err)
  show ?thesis
  proof (cases "bumpPriority (cfg sn) base")
    case (Inl err2)
    with e fee c1 script_call_attempts [OF c1] show ?thesis
      by (simp add: attemptMintWithBump_def retry_fees_def)
  next
    case b: (Inr bumped)
    show ?thesis
    proof (cases "buildAndSendMint sn (second a) bumped w1")
      case None
      with e b fee c1 show ?thesis by (simp add: attemptMintWithBump_def)
    next
      case (Some p)
      obtain r2 w2 where p: "p = (r2, w2)" by (cases p) blast
      from script_call_attempts [OF Some [unfolded p]] script_call_attempts [OF c1]
        Some p e b fee c1
      show ?thesis by (simp add: attemptMintWithBump_def retry_fees_def)
    qed
  qed
qed





lemma live_sniper_facts:
  "\<not> dryRun (cfg live_sniper)" "wallet live_sniper \<noteq> None" "mintSelector live_sniper \<noteq> None"
  "cfg live_sniper = example_config" "\<not> locked (manager (world_at n))"
  by (simp_all add: example_defs example_config_def)


text \<open>
  C1, as the specification states it: only a rejected broadcast triggers the second
  submission; an error of the confirmation wait after a successful broadcast never does.
  It fails. The node accepts the first transaction (nonce 7, 50 gwei), \<^verbatim>\<open>wait(1)\<close>
  throws, and \<^verbatim>\<open>attemptMint\<close> submits a second transaction with nonce 8 and 75 gwei:
  \<^verbatim>\<open>sendTransaction\<close>, \<^verbatim>\<open>wait\<close> and \<^verbatim>\<open>sync\<close> sit in one \<^verbatim>\<open>try\<close> block and the
  caller retries on whatever that block throws. (A version of the library whose
  \<^verbatim>\<open>wait\<close> throws for a reverted transaction makes a revert one more such error.)
\<close>

theorem C1_wait_error_triggers_retry:
  "attemptMint live_sniper (detection (accepts\<lparr>wait := Throws\<rparr>)) (world_at 7) =
     Some (Inr (),
       \<lparr>manager = \<lparr>locked = False, nonce = 9\<rparr>,
        attempts = [50000000000, 75000000000],
        built = [(7, 50000000000), (8, 75000000000)],
        sends = [(7, 50000000000), (8, 75000000000)],
        releases = 2\<rparr>)"
  by code_simp

text \<open>
  C1, amended. Let the fee estimate succeed and the first call of \<^verbatim>\<open>buildAndSendMint\<close>
  come back, by returning or by throwing. It throws exactly when the selector (class) or
  the wallet (script) is missing, when building the transaction throws, or when, with a
  wallet and outside dry run, the broadcast is rejected, the confirmation wait throws or
  the resync query throws; a receipt that \<^verbatim>\<open>wait\<close> returns never makes it throw,
  whatever its status. A second call is made exactly when the first call throws and the
  bumped fee can be computed: the orchestrator then either hangs inside that second call
  or comes back having made the two calls, at the base fee and at the bumped fee; in
  every other case it comes back having made the first call only. This holds for
  \<^verbatim>\<open>attemptMint\<close> and for \<^verbatim>\<open>attemptMintWithBump\<close>, also when the detection arrives
  while another attempt holds the lock.
\<close>

theorem C1_second_call_iff_first_throws_and_bump_returns:
  assumes "getPriorityFee (cfg sn) (feeData a) = Inr base"
  shows "(\<forall>r1 w1. MintSniper_buildAndSendMint sn (first a) base w = Some (r1, w1) \<longrightarrow>
            (isl r1 \<longleftrightarrow> mintSelector sn = None \<or> populateTransaction (first a) = Throws
               \<or> (\<not> dryRun (cfg sn) \<and> wallet sn \<noteq> None \<and> try_block_throws (first a)))
          \<and> (case attemptMint sn a w of
                Some (res, w') \<Rightarrow>
                  attempts w' = attempts w @ retry_fees (cfg sn) base (isl r1)
              | None \<Rightarrow>
                  isl r1 \<and> (\<exists>bumped. bumpPriority (cfg sn) base = Inr bumped
                    \<and> MintSniper_buildAndSendMint sn (second a) bumped w1 = None)))
       \<and> (\<forall>r1 w1. buildAndSendMint sn (first a) base w = Some (r1, w1) \<longrightarrow>
            (isl r1 \<longleftrightarrow> wallet sn = None \<or> populateTransaction (first a) = Throws
               \<or> (\<not> dryRun (cfg sn) \<and> try_block_throws (first a)))
          \<and> (case attemptMintWithBump sn a w of
                Some (res, w') \<Rightarrow>
                  attempts w' = attempts w @ retry_fees (cfg sn) base (isl r1)
              | None \<Rightarrow>
                  isl r1 \<and> (\<exists>bumped. bumpPriority (cfg sn) base = Inr bumped
                    \<and> buildAndSendMint sn (second a) bumped w1 = None)))"
  using class_call_throws_iff class_attempt_after_first [OF assms]
    script_call_throws_iff script_attempt_after_first [OF assms]
  by blast

text \<open>
  The witness: the detection arrives while another attempt holds nonce 7; the call waits
  two wake-ups, takes nonce 8, the transaction is mined with status 1, and no second call
  is made.
\<close>

theorem C1_second_call_iff_first_throws_and_bump_returns_witness:
  "getPriorityFee (cfg live_sniper)
      (feeData (detection (accepts\<lparr>wakeups := released_at_second_wakeup\<rparr>))) = Inr 50000000000
   \<and> (\<exists>w1. MintSniper_buildAndSendMint live_sniper
              (first (detection (accepts\<lparr>wakeups := released_at_second_wakeup\<rparr>)))
              50000000000 busy_world = Some (Inr (Some (Receipt (Some 1))), w1)
          \<and> built w1 = [(8, 50000000000)])
   \<and> (\<exists>res w'. attemptMint live_sniper
              (detection (accepts\<lparr>wakeups := released_at_second_wakeup\<rparr>)) busy_world
                = Some (res, w') \<and> attempts w' = [50000000000])
   \<and> (\<exists>res w'. attemptMintWithBump live_sniper
              (detection (accepts\<lparr>wakeups := released_at_second_wakeup\<rparr>)) busy_world
                = Some (res, w') \<and> attempts w' = [50000000000])"
proof -
  let ?a = "detection (accepts\<lparr>wakeups := released_at_second_wakeup\<rparr>)"
  let ?w1 = "\<lparr>manager = \<lparr>locked = False, nonce = 9\<rparr>, attempts = [50000000000],
              built = [(8, 50000000000)], sends = [(8, 50000000000)], releases = 1\<rparr>"
  have fee: "getPriorityFee (cfg live_sniper) (feeData ?a) = Inr 50000000000"
    by (simp add: live_sniper_facts(4) detection_def fee_example)
  have c: "MintSniper_buildAndSendMint live_sniper (first ?a) 50000000000 busy_world
             = Some (Inr (Some (Receipt (Some 1))), ?w1)"
    by code_simp
  have s: "buildAndSendMint live_sniper (first ?a) 50000000000 busy_world
             = Some (Inr (Some (Receipt (Some 1))), ?w1)"
    by code_simp
  have att: "attempts busy_world = []" by (simp add: busy_world_def new_world_def)
  note main = C1_second_call_iff_first_throws_and_bump_returns [OF fee, of busy_world]
  from main c have "case attemptMint live_sniper ?a busy_world of
      Some (res, w') \<Rightarrow> attempts w' = attempts busy_world @ retry_fees (cfg live_sniper) 50000000000 False
    | None \<Rightarrow> False"
    by (auto split: option.splits)
  then have 1: "\<exists>res w'. attemptMint live_sniper ?a busy_world = Some (res, w')
      \<and> attempts w' = [50000000000]"
    by (auto simp: att retry_fees_def split: option.splits)
  from main s have "case attemptMintWithBump live_sniper ?a busy_world of
      Some (res, w') \<Rightarrow> attempts w' = attempts busy_world @ retry_fees (cfg live_sniper) 50000000000 False
    | None \<Rightarrow> False"
    by (auto split: option.splits)
  then have 2: "\<exists>res w'. attemptMintWithBump live_sniper ?a busy_world = Some (res, w')
      \<and> attempts w' = [50000000000]"
    by (auto simp: att retry_fees_def split: option.splits)
  from fee c 1 2 show ?thesis by simp
qed

subsection \<open>Retry exactly once\<close>





subsection \<open>A failed fee estimate\<close>

text \<open>
  C8: when the fee estimate fails, the attempt ends there with that error: the state is
  the one it started in (counter, lock flag and logs), so no nonce was allocated and
  nothing was submitted.
\<close>

theorem C8_fee_failure_aborts_before_allocation:
  assumes "getPriorityFee (cfg sn) (feeData a) = Inl e"
  shows "attemptMint sn a w = Some (Inl e, w) \<and> attemptMintWithBump sn a w = Some (Inl e, w)"
  using assms by (simp add: attemptMint_def attemptMintWithBump_def)

theorem C8_fee_failure_aborts_before_allocation_witness:
  "attemptMint live_sniper ((detection accepts)\<lparr>feeData := Returns None\<rparr>) (world_at 7)
      = Some (Inl CouldNotGetPriorityFee, world_at 7)
   \<and> attemptMintWithBump live_sniper ((detection accepts)\<lparr>feeData := Returns None\<rparr>) (world_at 7)
      = Some (Inl CouldNotGetPriorityFee, world_at 7)"
proof -
  have "getPriorityFee (cfg live_sniper)
          (feeData ((detection accepts)\<lparr>feeData := Returns None\<rparr>)) = Inl CouldNotGetPriorityFee"
    by (simp add: getPriorityFee_def)
  from C8_fee_failure_aborts_before_allocation [OF this] show ?thesis by simp
qed

subsection \<open>Dry run\<close>

lemma plus_one_funpow:
  "k \<le> 2 ^ 53 \<Longrightarrow> (plus_one ^^ k) (- 1) = int k - 1"
proof (induction k)
  case 0
  show ?case by simp
next
  case (Suc k)
  then have "(plus_one ^^ k) (- 1) = int k - 1" by simp
  moreover from Suc.prems have "int k \<le> 2 ^ 53"
    by (metis Suc_leD of_nat_le_iff of_nat_numeral of_nat_power)
  then have "plus_one (int k - 1) = int k - 1 + 1" by (intro plus_one_exact) simp_all
  ultimately show ?case by simp
qed

lemma class_dry_attempt:
  assumes "dryRun (cfg sn)" "mintSelector sn \<noteq> None" "\<not> locked (manager w)"
    and "getPriorityFee (cfg sn) (feeData a) = Inr f"
    and "populateTransaction (first a) = Returns u"
  shows "\<exists>w'. attemptMint sn a w = Some (Inr (), w') \<and> \<not> locked (manager w')
     \<and> nonce (manager w') = plus_one (nonce (manager w))
     \<and> built w' = built w @ [(nonce (manager w), f)] \<and> sends w' = sends w"
  using assms
  by (auto simp: attemptMint_def MintSniper_buildAndSendMint_def getNonce_unlocked
        do_release_def release_def Let_def)

lemma class_dry_handleBlock:
  assumes "dryRun (cfg sn)" "mintSelector sn \<noteq> None" "\<not> locked (manager w)"
    and "\<forall>a\<in>set as. (\<exists>f. getPriorityFee (cfg sn) (feeData a) = Inr f)
           \<and> populateTransaction (first a) = Returns ()"
  shows "\<exists>w'. handleBlock sn as w = Some (Inr (), w') \<and> \<not> locked (manager w')
     \<and> map fst (built w') =
         map fst (built w) @ map (\<lambda>k. (plus_one ^^ k) (nonce (manager w))) [0..<length as]
     \<and> sends w' = sends w"
  using assms(3,4)
proof (induction as arbitrary: w)
  case Nil
  then show ?case by simp
next
  case (Cons a as)
  from Cons.prems obtain f where f: "getPriorityFee (cfg sn) (feeData a) = Inr f"
    and pop: "populateTransaction (first a) = Returns ()" by auto
  from class_dry_attempt [OF assms(1,2) Cons.prems(1) f pop]
  obtain w1 where a1: "attemptMint sn a w = Some (Inr (), w1)" and u1: "\<not> locked (manager w1)"
    and n1: "nonce (manager w1) = plus_one (nonce (manager w))"
    and b1: "built w1 = built w @ [(nonce (manager w), f)]" and s1: "sends w1 = sends w"
    by blast
  from Cons.IH [OF u1] Cons.prems(2)
  obtain w' where h: "handleBlock sn as w1 = Some (Inr (), w')" and u: "\<not> locked (manager w')"
    and b: "map fst (built w') =
              map fst (built w1) @ map (\<lambda>k. (plus_one ^^ k) (nonce (manager w1))) [0..<length as]"
    and s: "sends w' = sends w1" by auto
  have "map (\<lambda>k. (plus_one ^^ k) (nonce (manager w))) [0..<length (a # as)]
      = nonce (manager w) # map (\<lambda>k. (plus_one ^^ k) (nonce (manager w1))) [0..<length as]"
    by (simp add: n1 upt_conv_Cons map_Suc_upt [symmetric] funpow_swap1 del: upt_Suc)
  with a1 h u b s b1 s1 show ?case by simp
qed

lemma script_dry_attempt:
  assumes "wallet sn = None"
  shows "\<exists>res w'. attemptMintWithBump sn a w = Some (res, w') \<and> manager w' = manager w
     \<and> built w' = built w \<and> sends w' = sends w"
  using assms
  by (auto simp: attemptMintWithBump_def buildAndSendMint_def Let_def split: sum.splits)

lemma bootstrap_dry:
  assumes "dryRun c" "bootstrap c ready selector count = Inr (sn, w)"
  shows "cfg sn = c" "wallet sn = None" "mintSelector sn = selector"
    "w = new_world new_NonceManager"
  using assms by (auto simp: bootstrap_def Let_def split: rpc.splits)

lemma class_call_dry_sends:
  "dryRun (cfg sn) \<Longrightarrow> MintSniper_buildAndSendMint sn ch fee w = Some (r, w')
     \<Longrightarrow> sends w' = sends w"
  by (auto simp: MintSniper_buildAndSendMint_def Let_def do_release_def
        split: if_splits option.splits rpc.splits)

lemma script_call_dry_sends:
  "dryRun (cfg sn) \<Longrightarrow> buildAndSendMint sn ch fee w = Some (r, w') \<Longrightarrow> sends w' = sends w"
  by (auto simp: buildAndSendMint_def Let_def do_release_def
        split: if_splits option.splits rpc.splits)

lemma class_dry_no_send:
  "dryRun (cfg sn) \<Longrightarrow> attemptMint sn a w = Some (res, w') \<Longrightarrow> sends w' = sends w"
  by (auto simp: attemptMint_def split: sum.splits option.splits)
     (metis class_call_dry_sends)+

lemma script_dry_no_send:
  "dryRun (cfg sn) \<Longrightarrow> attemptMintWithBump sn a w = Some (res, w') \<Longrightarrow> sends w' = sends w"
  by (auto simp: attemptMintWithBump_def split: sum.splits option.splits)
     (metis script_call_dry_sends)+

lemma dry_example:
  "attemptMint dry_sniper (detection accepts) (world_at (- 1)) =
     Some (Inr (), \<lparr>manager = \<lparr>locked = False, nonce = 0\<rparr>, attempts = [50000000000],
        built = [(- 1, 50000000000)], sends = [], releases = 1\<rparr>)"
  by code_simp

text \<open>
  C10: in dry run \<^verbatim>\<open>init\<close> is never called, whatever transaction count the chain
  would report, so the counter keeps its initial value \<open>- 1\<close>; in the class variant the
  attempts made for the matching transactions of a block then get, in turn, \<open>- 1\<close> and
  what the counter's \<^verbatim>\<open>++\<close> makes of it: \<open>- 1, 0, 1, \<dots>\<close> for any number of
  attempts up to \<open>2^53\<close>, which the transactions of a block, a JavaScript array of
  fewer than \<open>2^32\<close> entries, never exceed. (In the script variant a dry run has no
  wallet, \<^verbatim>\<open>buildAndSendMint\<close> throws before it allocates, and the counter stays at
  \<open>- 1\<close>.)
\<close>

theorem C10_dry_run_counts_from_minus_one:
  assumes "dryRun c" and "bootstrap c ready (Some sel) count = Inr (sn, w)"
    and "\<forall>a\<in>set as. (\<exists>f. getPriorityFee c (feeData a) = Inr f)
           \<and> populateTransaction (first a) = Returns ()"
  shows "manager w = \<lparr>locked = False, nonce = - 1\<rparr>
    \<and> (\<exists>w'. handleBlock sn as w = Some (Inr (), w')
          \<and> map fst (built w') = map (\<lambda>k. (plus_one ^^ k) (- 1)) [0..<length as]
          \<and> (length as \<le> 2 ^ 53
               \<longrightarrow> map fst (built w') = map (\<lambda>k. int k - 1) [0..<length as]))
    \<and> (\<exists>res w'. attemptMintWithBump sn a w = Some (res, w')
          \<and> manager w' = \<lparr>locked = False, nonce = - 1\<rparr> \<and> built w' = [])"
proof -
  note b = bootstrap_dry [OF assms(1,2)]
  have m: "manager w = \<lparr>locked = False, nonce = - 1\<rparr>" "built w = []"
    by (simp_all add: b(4) new_world_def new_NonceManager_def)
  have "dryRun (cfg sn)" "mintSelector sn \<noteq> None" "\<not> locked (manager w)"
    using assms(1) by (simp_all add: b(1,3) m)
  from class_dry_handleBlock [OF this, of as] assms(3)
  obtain w' where h: "handleBlock sn as w = Some (Inr (), w')"
    and bl: "map fst (built w') = map (\<lambda>k. (plus_one ^^ k) (- 1)) [0..<length as]"
    by (auto simp: b(1) m)
  have "map (\<lambda>k. (plus_one ^^ k) (- 1)) [0..<length as] = map (\<lambda>k. int k - 1) [0..<length as]"
    if "length as \<le> 2 ^ 53"
  proof (rule map_cong [OF refl])
    fix k assume "k \<in> set [0..<length as]"
    with that have "k \<le> 2 ^ 53" by simp
    then show "(plus_one ^^ k) (- 1) = int k - 1" by (rule plus_one_funpow)
  qed
  with h bl have "\<exists>w'. handleBlock sn as w = Some (Inr (), w')
          \<and> map fst (built w') = map (\<lambda>k. (plus_one ^^ k) (- 1)) [0..<length as]
          \<and> (length as \<le> 2 ^ 53
               \<longrightarrow> map fst (built w') = map (\<lambda>k. int k - 1) [0..<length as])"
    by simp
  moreover from script_dry_attempt [OF b(2), of a w]
  have "\<exists>res w'. attemptMintWithBump sn a w = Some (res, w')
          \<and> manager w' = \<lparr>locked = False, nonce = - 1\<rparr> \<and> built w' = []"
    by (auto simp: m)
  ultimately show ?thesis using m(1) by (intro conjI)
qed

text \<open>The witness: the chain reports 42 transactions; three dry-run attempts get \<open>- 1, 0, 1\<close>.\<close>

theorem C10_dry_run_counts_from_minus_one_witness:
  "bootstrap (example_config\<lparr>dryRun := True\<rparr>) (Returns ()) (Some ''0x1249c58b'') (Returns 42)
       = Inr (dry_sniper, new_world new_NonceManager)
   \<and> (\<exists>w'. handleBlock dry_sniper [detection accepts, detection accepts, detection accepts]
            (new_world new_NonceManager) = Some (Inr (), w')
          \<and> map fst (built w') = [- 1, 0, 1])"
proof -
  let ?c = "example_config\<lparr>dryRun := True\<rparr>"
  have d: "dryRun ?c" by simp
  have b: "bootstrap ?c (Returns ()) (Some ''0x1249c58b'') (Returns 42)
             = Inr (dry_sniper, new_world new_NonceManager)"
    by (simp add: bootstrap_def dry_sniper_def Let_def)
  have f: "getPriorityFee ?c (feeData (detection accepts)) = Inr 50000000000"
    using fee_example by (simp add: getPriorityFee_def detection_def example_config_def)
  have a: "\<forall>a\<in>set [detection accepts, detection accepts, detection accepts].
      (\<exists>f. getPriorityFee ?c (feeData a) = Inr f) \<and> populateTransaction (first a) = Returns ()"
    using f by (simp add: detection_def accepts_def)
  let ?as = "[detection accepts, detection accepts, detection accepts]"
  from C10_dry_run_counts_from_minus_one [OF d b a]
  obtain w' where h: "handleBlock dry_sniper ?as (new_world new_NonceManager) = Some (Inr (), w')"
    and i: "length ?as \<le> 2 ^ 53 \<longrightarrow> map fst (built w') = map (\<lambda>k. int k - 1) [0..<length ?as]"
    by blast
  have "length ?as \<le> 2 ^ 53" by simp
  with i have "map fst (built w') = map (\<lambda>k. int k - 1) [0..<length ?as]" by blast
  also have "\<dots> = [- 1, 0, 1]" by (simp add: upt_rec)
  finally have r: "map fst (built w') = [- 1, 0, 1]" .
  show ?thesis
  proof (intro conjI exI [of _ w'])
    show "bootstrap ?c (Returns ()) (Some ''0x1249c58b'') (Returns 42)
            = Inr (dry_sniper, new_world new_NonceManager)" by (rule b)
    show "handleBlock dry_sniper ?as (new_world new_NonceManager) = Some (Inr (), w')"
      by (rule h)
    show "map fst (built w') = [- 1, 0, 1]" by (rule r)
  qed
qed

text \<open>
  C9, as the specification states it: with dry run enabled start-up succeeds without a
  sender credential. It fails: \<^verbatim>\<open>PRIVATE_KEY\<close> is in the list of required variables
  whatever \<^verbatim>\<open>DRY_RUN\<close> says, and \<^verbatim>\<open>buildConfig\<close> ends the process with exit code 1.
\<close>

theorem C9_dry_run_without_key_exits:
  "keyless_dry_run ''PRIVATE_KEY'' = None
   \<and> Boolean (Number decimal_builtins (or_default keyless_dry_run ''DRY_RUN'' ''1''))
   \<and> buildConfig decimal_builtins keyless_dry_run = Inl (Exit 1)"
  by code_simp

text \<open>
  C9, amended: the sender credential is required at start-up in every mode: when
  \<^verbatim>\<open>PRIVATE_KEY\<close> is unset, empty or still the placeholder, \<^verbatim>\<open>buildConfig\<close> exits with
  code 1 whatever the other variables and the parsers are. With dry run enabled the
  credential is not turned into a wallet, and no attempt of either variant ever calls
  \<^verbatim>\<open>sendTransaction\<close>.
\<close>

theorem C9_credential_always_required:
  "(missing env ''PRIVATE_KEY'' \<or> env ''PRIVATE_KEY'' = Some ''0xYOUR_BURNER_PRIVATE_KEY''
      \<longrightarrow> buildConfig js env = Inl (Exit 1))
   \<and> (dryRun c \<and> bootstrap c ready selector count = Inr (sn, w) \<longrightarrow> wallet sn = None)
   \<and> (dryRun (cfg sn') \<and> attemptMint sn' a w0 = Some (res, w') \<longrightarrow> sends w' = sends w0)
   \<and> (dryRun (cfg sn') \<and> attemptMintWithBump sn' a w0 = Some (res, w')
        \<longrightarrow> sends w' = sends w0)"
  using bootstrap_dry(2) [of c ready selector count sn w]
    class_dry_no_send [of sn' a w0 res w'] script_dry_no_send [of sn' a w0 res w']
  by (auto simp: buildConfig_def)

theorem C9_credential_always_required_witness:
  "buildConfig decimal_builtins keyless_dry_run = Inl (Exit 1)
   \<and> sends \<lparr>manager = \<lparr>locked = False, nonce = 0\<rparr>, attempts = [50000000000],
        built = [(- 1, 50000000000)], sends = [], releases = 1\<rparr> = sends (world_at (- 1))"
proof -
  have "missing keyless_dry_run ''PRIVATE_KEY''"
    by (simp add: missing_def keyless_dry_run_def)
  moreover have "dryRun (cfg dry_sniper)" by (simp add: dry_sniper_def)
  ultimately show ?thesis
    using C9_credential_always_required
      [of keyless_dry_run decimal_builtins _ _ _ _ _ _ dry_sniper
        "detection accepts" "world_at (- 1)" "Inr ()"] dry_example
    by (simp add: world_at_def new_world_def)
qed


subsection \<open>The fee ceiling\<close>

text \<open>
  C5, as the specification states it: for every suggested fee the estimate is the minimum
  of the suggestion and the ceiling. It fails for a suggestion of zero: \<^verbatim>\<open>!priority\<close> is
  true for \<^verbatim>\<open>0n\<close>, and the estimate throws instead of returning \<open>min 0 ceiling = 0\<close>.
  It also fails for a configured ceiling that \<^verbatim>\<open>parseUnits\<close> cannot represent: with
  \<^verbatim>\<open>MAX_PRIORITY_FEE_GWEI\<close> set to \<open>2^520\<close> a suggestion of 1 gwei makes the estimate
  throw a numeric fault instead of returning 1 gwei.
\<close>

theorem C5_estimate_throws_instead_of_min:
  "getPriorityFee example_config (Returns (Some 0)) = Inl CouldNotGetPriorityFee
   \<and> getPriorityFee (example_config\<lparr>maxPriorityFeeGwei := 2 ^ 520\<rparr>) (Returns (Some 1000000000))
       = Inl NumericFault"
  by (simp add: getPriorityFee_def parseUnits_gwei_def fits_fixed512_def gwei_def)

text \<open>
  C5, amended: the ceiling is the configured gwei amount in wei. For every suggested fee
  other than zero the estimate is the minimum of the suggestion and the ceiling when the
  ceiling lies in the range of the library's fixed-point format (from \<open>- 2^511\<close> up to
  but without \<open>2^511\<close> wei), and fails with a numeric fault when it does not; whatever
  the estimate returns is at most the ceiling; with no suggestion, or a suggestion of
  zero, it fails with the fee-unavailable error.
\<close>

theorem C5_estimate_clamps_nonzero_fee:
  "(p \<noteq> 0 \<longrightarrow>
      getPriorityFee c (Returns (Some p)) =
        (if fits_fixed512 (maxPriorityFeeGwei c * gwei)
         then Inr (min p (maxPriorityFeeGwei c * gwei)) else Inl NumericFault))
   \<and> (getPriorityFee c fd = Inr f \<longrightarrow> f \<le> maxPriorityFeeGwei c * gwei)
   \<and> getPriorityFee c (Returns None) = Inl CouldNotGetPriorityFee
   \<and> getPriorityFee c (Returns (Some 0)) = Inl CouldNotGetPriorityFee"
  by (auto simp: getPriorityFee_def parseUnits_gwei_def Let_def split: rpc.splits if_splits)

text \<open>The witness: 80 gwei is cut to the ceiling of 50 gwei, 3 gwei passes unchanged.\<close>

theorem C5_estimate_clamps_nonzero_fee_witness:
  "fits_fixed512 (maxPriorityFeeGwei example_config * gwei)
   \<and> getPriorityFee example_config (Returns (Some 80000000000)) = Inr 50000000000
   \<and> getPriorityFee example_config (Returns (Some 3000000000)) = Inr 3000000000
   \<and> (50000000000 :: int) \<le> maxPriorityFeeGwei example_config * gwei"
  using C5_estimate_clamps_nonzero_fee
      [of 80000000000 example_config "Returns (Some 80000000000)" 50000000000]
    C5_estimate_clamps_nonzero_fee [of 3000000000 example_config]
  by (simp add: example_config_def fits_fixed512_def gwei_def)


subsection \<open>Nonces under interleaving\<close>

lemma holders_update:
  "i < length xs \<Longrightarrow>
   length (filter is_holding (xs[i := y])) + (if is_holding (xs ! i) then 1 else 0)
     = length (filter is_holding xs) + (if is_holding y then 1 else 0)"
proof (induction xs arbitrary: i)
  case Nil
  then show ?case by simp
next
  case (Cons x xs)
  then show ?case by (cases i) auto
qed

lemma count_list_update:
  "i < length xs \<Longrightarrow>
   count_list (xs[i := y]) v + (if xs ! i = v then 1 else 0)
     = count_list xs v + (if y = v then 1 else 0)"
proof (induction xs arbitrary: i)
  case Nil
  then show ?case by simp
next
  case (Cons x xs)
  show ?case
  proof (cases i)
    case 0
    then show ?thesis by simp
  next
    case (Suc k)
    with Cons.prems have "k < length xs" by simp
    from Cons.IH [OF this] Suc show ?thesis by (auto split: if_splits)
  qed
qed

lemma length_resume: "length (callers (resume i s)) = length (callers s)"
  by (simp add: resume_def poll_def split: caller.splits)

lemma length_run: "length (callers (run sched s)) = length (callers s)"
  by (induction sched arbitrary: s) (simp_all add: length_resume)

lemma run_append: "run (xs @ ys) s = run ys (run xs s)"
  by (induction xs arbitrary: s) simp_all

text \<open>
  The invariant of the interleaved system started with counter \<open>c\<close> and \<open>n\<close> callers,
  where \<^verbatim>\<open>++\<close> is exact up to \<open>c + n\<close>: the flag is set exactly when one caller holds a
  nonce, nobody else does, the nonces handed out so far are \<open>c, c + 1, \<dots>\<close> in the order
  of acquisition, the counter is the next one, every nonce handed out is with one
  caller, and the other callers are still polling.
\<close>

lemma sys_inv_resume:
  assumes lo: "- (2 ^ 53) \<le> c" and hi: "c + int n \<le> 2 ^ 53"
    and h: "holders s = (if locked (shared s) then 1 else 0)"
    and a: "acquired s = map (\<lambda>k. c + int k) [0..<length (acquired s)]"
    and nn: "nonce (shared s) = c + int (length (acquired s))"
    and cs: "\<forall>v. count_list (map nonce_of (callers s)) (Some v) = count_list (acquired s) v"
    and cp: "count_list (map nonce_of (callers s)) None + length (acquired s) = n"
  shows "holders (resume i s) = (if locked (shared (resume i s)) then 1 else 0)
    \<and> acquired (resume i s) = map (\<lambda>k. c + int k) [0..<length (acquired (resume i s))]
    \<and> nonce (shared (resume i s)) = c + int (length (acquired (resume i s)))
    \<and> (\<forall>v. count_list (map nonce_of (callers (resume i s))) (Some v)
             = count_list (acquired (resume i s)) v)
    \<and> count_list (map nonce_of (callers (resume i s))) None + length (acquired (resume i s)) = n"
proof (cases "i < length (callers s)")
  case False
  with assms show ?thesis by (simp add: resume_def)
next
  case True
  then have il: "i < length (map nonce_of (callers s))" by simp
  show ?thesis
  proof (cases "callers s ! i")
    case Polling
    show ?thesis
    proof (cases "locked (shared s)")
      case True
      with assms Polling show ?thesis by (simp add: resume_def poll_def)
    next
      case False
      let ?k = "length (acquired s)"
      let ?v = "nonce (shared s)"
      let ?s' = "s\<lparr>shared := (shared s)\<lparr>locked := True, nonce := plus_one ?v\<rparr>,
                   callers := (callers s)[i := Holding ?v], acquired := acquired s @ [?v]\<rparr>"
      have r: "resume i s = ?s'"
        using True Polling False by (simp add: resume_def poll_def)
      from count_list_update [OF il, of "Some ?v" None] Polling True
      have none: "count_list (map nonce_of ((callers s)[i := Holding ?v])) None + 1
                    = count_list (map nonce_of (callers s)) None"
        by (simp add: map_update)
      with cp have kn: "?k < n" by simp
      with lo hi have "- (2 ^ 53) \<le> (c + int ?k) + 1" "(c + int ?k) + 1 \<le> 2 ^ 53" by simp_all
      then have p: "plus_one (c + int ?k) = c + int ?k + 1" by (rule plus_one_exact)
      from holders_update [OF True, of "Holding ?v"] Polling
      have hd: "length (filter is_holding ((callers s)[i := Holding ?v]))
              = Suc (length (filter is_holding (callers s)))" by simp
      have 1: "holders ?s' = (if locked (shared ?s') then 1 else 0)"
        using h False hd by (simp add: holders_def)
      have 2: "acquired ?s' = map (\<lambda>k. c + int k) [0..<length (acquired ?s')]"
        using a nn by simp
      have 3: "nonce (shared ?s') = c + int (length (acquired ?s'))"
        using nn p by simp
      have 4: "count_list (map nonce_of (callers ?s')) (Some v) = count_list (acquired ?s') v"
        for v
        using count_list_update [OF il, of "Some ?v" "Some v"] Polling True cs
        by (simp add: map_update)
      have 5: "count_list (map nonce_of (callers ?s')) None + length (acquired ?s') = n"
        using none cp by simp
      from 1 2 3 4 5 show ?thesis unfolding r by blast
    qed
  next
    case (Holding v)
    with True have "filter is_holding (callers s) \<noteq> []"
      by (metis filter_empty_conv is_holding.simps(1) nth_mem)
    with h have lk: "locked (shared s)"
      by (auto simp: holders_def split: if_splits)
    from holders_update [OF True, of "Released v"] Holding
    have "Suc (length (filter is_holding ((callers s)[i := Released v])))
              = length (filter is_holding (callers s))" by simp
    moreover have "map nonce_of ((callers s)[i := Released v]) = map nonce_of (callers s)"
      using True Holding by (simp add: map_update list_update_same_conv)
    ultimately show ?thesis using assms Holding lk True
      by (simp add: resume_def holders_def release_def)
  next
    case (Released v)
    with assms True show ?thesis by (simp add: resume_def)
  qed
qed

lemma sys_inv_run:
  assumes "- (2 ^ 53) \<le> c" and "c + int n \<le> 2 ^ 53"
    and "holders s = (if locked (shared s) then 1 else 0)"
    and "acquired s = map (\<lambda>k. c + int k) [0..<length (acquired s)]"
    and "nonce (shared s) = c + int (length (acquired s))"
    and "\<forall>v. count_list (map nonce_of (callers s)) (Some v) = count_list (acquired s) v"
    and "count_list (map nonce_of (callers s)) None + length (acquired s) = n"
  shows "holders (run sched s) = (if locked (shared (run sched s)) then 1 else 0)
    \<and> acquired (run sched s) = map (\<lambda>k. c + int k) [0..<length (acquired (run sched s))]
    \<and> nonce (shared (run sched s)) = c + int (length (acquired (run sched s)))
    \<and> (\<forall>v. count_list (map nonce_of (callers (run sched s))) (Some v)
             = count_list (acquired (run sched s)) v)
    \<and> count_list (map nonce_of (callers (run sched s))) None
         + length (acquired (run sched s)) = n"
  using assms(3-)
proof (induction sched arbitrary: s)
  case Nil
  then show ?case by simp
next
  case (Cons i sched)
  from sys_inv_resume [OF assms(1,2) Cons.prems, of i]
  have "holders (resume i s) = (if locked (shared (resume i s)) then 1 else 0)"
    "acquired (resume i s) = map (\<lambda>k. c + int k) [0..<length (acquired (resume i s))]"
    "nonce (shared (resume i s)) = c + int (length (acquired (resume i s)))"
    "\<forall>v. count_list (map nonce_of (callers (resume i s))) (Some v)
             = count_list (acquired (resume i s)) v"
    "count_list (map nonce_of (callers (resume i s))) None + length (acquired (resume i s)) = n"
    by blast+
  from Cons.IH [OF this] show ?case by simp
qed

lemma sys_inv_start:
  "holders (start_system c n) = (if locked (shared (start_system c n)) then 1 else 0)"
  "acquired (start_system c n)
     = map (\<lambda>k. c + int k) [0..<length (acquired (start_system c n))]"
  "nonce (shared (start_system c n)) = c + int (length (acquired (start_system c n)))"
  "\<forall>v. count_list (map nonce_of (callers (start_system c n))) (Some v)
         = count_list (acquired (start_system c n)) v"
  "count_list (map nonce_of (callers (start_system c n))) None
     + length (acquired (start_system c n)) = n"
  by (simp_all add: start_system_def holders_def count_list_0_iff)
     (induction n; simp)

text \<open>
  What a caller has been handed stays with it, and is what \<^verbatim>\<open>getNonce\<close> returns on the
  states of the manager that the caller went through.
\<close>

lemma nonce_of_resume:
  assumes "i < length (callers s)" "nonce_of (callers s ! i) = Some v"
  shows "nonce_of (callers (resume j s) ! i) = Some v"
proof (cases "j = i")
  case True
  with assms show ?thesis
    by (cases "callers s ! i") (simp_all add: resume_def)
next
  case False
  with assms show ?thesis
    by (simp add: resume_def poll_def split: caller.splits)
qed

lemma nonce_of_run:
  assumes "i < length (callers s)" "nonce_of (callers s ! i) = Some v"
  shows "nonce_of (callers (run sched s) ! i) = Some v"
  using assms
proof (induction sched arbitrary: s)
  case Nil
  then show ?case by simp
next
  case (Cons j sched)
  from Cons.prems have "i < length (callers (resume j s))"
    "nonce_of (callers (resume j s) ! i) = Some v"
    by (simp_all add: length_resume nonce_of_resume)
  from Cons.IH [OF this] show ?case by simp
qed

lemma caller_gets_getNonce:
  assumes "i < length (callers s)" "callers s ! i = Polling"
  shows "nonce_of (callers (run sched s) ! i)
     = (case views i sched s of [] \<Rightarrow> None
        | m # later \<Rightarrow> map_option fst (getNonce later m))"
  using assms
proof (induction sched arbitrary: s)
  case Nil
  then show ?case by simp
next
  case (Cons j sched)
  show ?case
  proof (cases "j = i")
    case False
    with Cons.prems have "i < length (callers (resume j s))" "callers (resume j s) ! i = Polling"
      by (simp_all add: resume_def poll_def split: caller.splits)
    from Cons.IH [OF this] False show ?thesis by simp
  next
    case True
    show ?thesis
    proof (cases "locked (shared s)")
      case lk: True
      with Cons.prems True have r: "resume j s = s" by (simp add: resume_def poll_def)
      from lk have "getNonce later (shared s)
          = (case later of [] \<Rightarrow> None | m # rest \<Rightarrow> getNonce rest m)" for later
        by (cases later) (simp_all add: poll_def)
      with Cons.IH [OF Cons.prems] Cons.prems True r show ?thesis
        by (simp split: list.splits)
    next
      case False
      with Cons.prems True
      have "i < length (callers (resume j s))"
        "nonce_of (callers (resume j s) ! i) = Some (nonce (shared s))"
        by (simp_all add: resume_def poll_def)
      from nonce_of_run [OF this, of sched] getNonce_unlocked [OF False] Cons.prems True
      show ?thesis by simp
    qed
  qed
qed

text \<open>Given its two turns while the lock is free, a caller has returned and released.\<close>

lemma own_turn:
  assumes "\<not> locked (shared s)" "i < length (callers s)"
  shows "\<not> locked (shared (run [i, i] s)) \<and> callers (run [i, i] s) ! i \<noteq> Polling
    \<and> (\<forall>j. j \<noteq> i \<longrightarrow> callers (run [i, i] s) ! j = callers s ! j)"
  using assms
  by (cases "callers s ! i") (simp_all add: resume_def poll_def release_def)

lemma one_by_one_Suc: "one_by_one (Suc k) = one_by_one k @ [k, k]"
  by (simp add: one_by_one_def)

lemma one_by_one_all_returned:
  assumes "\<not> locked (shared s)" "k \<le> length (callers s)"
  shows "\<not> locked (shared (run (one_by_one k) s))
    \<and> (\<forall>j<k. callers (run (one_by_one k) s) ! j \<noteq> Polling)"
  using assms(2)
proof (induction k)
  case 0
  with assms(1) show ?case by (simp add: one_by_one_def)
next
  case (Suc k)
  let ?s = "run (one_by_one k) s"
  from Suc have u: "\<not> locked (shared ?s)" and p: "\<forall>j<k. callers ?s ! j \<noteq> Polling"
    and l: "k < length (callers ?s)" by (simp_all add: length_run)
  from own_turn [OF u l] p
  have "\<not> locked (shared (run [k, k] ?s)) \<and> (\<forall>j<Suc k. callers (run [k, k] ?s) ! j \<noteq> Polling)"
    by (metis less_Suc_eq)
  then show ?case unfolding one_by_one_Suc run_append .
qed


text \<open>
  C3, as the specification states it: for any sequence of calls the returned nonces are
  consecutive, with no repeats. It fails where the counter, a JavaScript number, stops
  counting: started at \<open>2^53 - 1\<close>, three callers that acquire and release one after the
  other get \<open>2^53 - 1\<close>, \<open>2^53\<close> and \<open>2^53\<close> again, since \<open>2^53 + 1\<close> is not a binary64
  value and \<^verbatim>\<open>this.nonce++\<close> leaves \<open>2^53\<close> where it is.
\<close>

theorem C3_nonce_repeats_at_2_53:
  "acquired (run (one_by_one 3) (start_system 9007199254740991 3))
     = [9007199254740991, 9007199254740992, 9007199254740992]
   \<and> \<not> distinct (acquired (run (one_by_one 3) (start_system 9007199254740991 3)))
   \<and> (2 :: int) ^ 53 = 9007199254740992"
  by code_simp

text \<open>
  C3, amended: let \<open>n\<close> callers of \<^verbatim>\<open>getNonce\<close> start at the counter value \<open>c\<close>, with
  \<open>- 2^53 \<le> c\<close> and \<open>c + n \<le> 2^53\<close>, and no resync in between. Whatever the order in
  which the event loop resumes them, the nonces returned so far are the consecutive
  integers from \<open>c\<close> on, in the order of acquisition, without repeats or gaps; the counter
  is the next one; at most one caller holds the lock; every nonce returned is with
  exactly one caller and the callers without one, \<open>n\<close> less the number of nonces
  returned, are still polling, so that once all \<open>n\<close> have returned the nonces are exactly
  \<open>c, \<dots>, c + n - 1\<close>; what a caller has is what \<^verbatim>\<open>getNonce\<close> returns on the states of
  the manager it found at its wake-ups; and when the callers are resumed one after the
  other, all \<open>n\<close> return.
\<close>

theorem C3_nonces_consecutive_while_increment_exact:
  assumes "- (2 ^ 53) \<le> c" and "c + int n \<le> 2 ^ 53"
  shows "acquired (run sched (start_system c n))
      = map (\<lambda>k. c + int k) [0..<length (acquired (run sched (start_system c n)))]
   \<and> distinct (acquired (run sched (start_system c n)))
   \<and> nonce (shared (run sched (start_system c n)))
        = c + int (length (acquired (run sched (start_system c n))))
   \<and> holders (run sched (start_system c n)) \<le> 1
   \<and> (\<forall>v. count_list (map nonce_of (callers (run sched (start_system c n)))) (Some v)
            = count_list (acquired (run sched (start_system c n))) v)
   \<and> count_list (map nonce_of (callers (run sched (start_system c n)))) None
        + length (acquired (run sched (start_system c n))) = n
   \<and> (\<forall>i<n. nonce_of (callers (run sched (start_system c n)) ! i)
          = (case views i sched (start_system c n) of
               [] \<Rightarrow> None
             | m # later \<Rightarrow> map_option fst (getNonce later m)))
   \<and> acquired (run (one_by_one n) (start_system c n)) = map (\<lambda>k. c + int k) [0..<n]"
proof -
  let ?init = "start_system c n"
  let ?s = "run sched ?init"
  let ?t = "run (one_by_one n) ?init"
  note inv = sys_inv_run [OF assms sys_inv_start]
  have i1: "acquired ?s = map (\<lambda>k. c + int k) [0..<length (acquired ?s)]"
    and i3: "nonce (shared ?s) = c + int (length (acquired ?s))"
    and i4: "\<forall>v. count_list (map nonce_of (callers ?s)) (Some v) = count_list (acquired ?s) v"
    and i5: "count_list (map nonce_of (callers ?s)) None + length (acquired ?s) = n"
    using inv [of sched] by blast+
  have "holders ?s = (if locked (shared ?s) then 1 else 0)" using inv [of sched] by blast
  then have i2: "holders ?s \<le> 1" by (simp split: if_splits)
  have "distinct (map (\<lambda>k. c + int k) [0..<length (acquired ?s)])"
    by (simp add: distinct_map inj_on_def)
  with i1 have d: "distinct (acquired ?s)" by simp
  have v: "\<forall>i<n. nonce_of (callers ?s ! i)
          = (case views i sched ?init of [] \<Rightarrow> None
             | m # later \<Rightarrow> map_option fst (getNonce later m))"
  proof (intro allI impI)
    fix i assume "i < n"
    then have "i < length (callers ?init)" "callers ?init ! i = Polling"
      by (simp_all add: start_system_def)
    then show "nonce_of (callers ?s ! i)
          = (case views i sched ?init of [] \<Rightarrow> None
             | m # later \<Rightarrow> map_option fst (getNonce later m))"
      by (rule caller_gets_getNonce)
  qed
  have t1: "acquired ?t = map (\<lambda>k. c + int k) [0..<length (acquired ?t)]"
    and t5: "count_list (map nonce_of (callers ?t)) None + length (acquired ?t) = n"
    using inv [of "one_by_one n"] by blast+
  have "\<not> locked (shared ?init)" "n \<le> length (callers ?init)" by (simp_all add: start_system_def)
  from one_by_one_all_returned [OF this]
  have ret: "\<forall>j<n. callers ?t ! j \<noteq> Polling" by blast
  have len: "length (callers ?t) = n" by (simp add: length_run start_system_def)
  have "None \<notin> set (map nonce_of (callers ?t))"
  proof
    assume "None \<in> set (map nonce_of (callers ?t))"
    then obtain x where x: "x \<in> set (callers ?t)" "nonce_of x = None" by auto
    from x(2) have "x = Polling" by (cases x) simp_all
    with x(1) ret len show False by (metis in_set_conv_nth)
  qed
  then have "count_list (map nonce_of (callers ?t)) None = 0" by (simp add: count_list_0_iff)
  with t5 have "length (acquired ?t) = n" by simp
  with t1 have l: "acquired ?t = map (\<lambda>k. c + int k) [0..<n]" by simp
  from i1 d i3 i2 i4 i5 v l show ?thesis by (intro conjI)
qed

lemma interleaved_example:
  "acquired (run [0, 1, 2, 1, 0, 2, 1, 1, 2, 0, 1, 1] (start_system 5 3)) = [5, 6, 7]"
  "callers (run [0, 1, 2, 1, 0, 2, 1, 1, 2, 0, 1, 1] (start_system 5 3))
     = [Released 5, Released 7, Released 6]"
  "views 1 [0, 1, 2, 1, 0, 2, 1, 1, 2, 0, 1, 1] (start_system 5 3)
     = [\<lparr>locked = True, nonce = 6\<rparr>, \<lparr>locked = True, nonce = 6\<rparr>,
        \<lparr>locked = True, nonce = 7\<rparr>, \<lparr>locked = True, nonce = 7\<rparr>,
        \<lparr>locked = False, nonce = 7\<rparr>]"
  by code_simp+

text \<open>
  The witness: three callers started at counter 5; callers 1 and 2 poll while caller 0
  holds the lock, caller 2 gets in before caller 1, who finds the lock taken four times
  and gets 7; the nonces are 5, 6, 7.
\<close>

theorem C3_nonces_consecutive_while_increment_exact_witness:
  "- (2 ^ 53) \<le> (5 :: int) \<and> (5 :: int) + int 3 \<le> 2 ^ 53
   \<and> acquired (run [0, 1, 2, 1, 0, 2, 1, 1, 2, 0, 1, 1] (start_system 5 3)) = [5, 6, 7]
   \<and> nonce (shared (run [0, 1, 2, 1, 0, 2, 1, 1, 2, 0, 1, 1] (start_system 5 3))) = 8
   \<and> holders (run [0, 1, 2, 1, 0, 2, 1, 1, 2, 0, 1, 1] (start_system 5 3)) \<le> 1
   \<and> nonce_of (callers (run [0, 1, 2, 1, 0, 2, 1, 1, 2, 0, 1, 1] (start_system 5 3)) ! 1)
       = map_option fst (getNonce
           [\<lparr>locked = True, nonce = 6\<rparr>, \<lparr>locked = True, nonce = 7\<rparr>,
            \<lparr>locked = True, nonce = 7\<rparr>, \<lparr>locked = False, nonce = 7\<rparr>]
           \<lparr>locked = True, nonce = 6\<rparr>)
   \<and> acquired (run (one_by_one 3) (start_system 5 3)) = [5, 6, 7]"
proof -
  let ?sched = "[0, 1, 2, 1, 0, 2, 1, 1, 2, 0, 1, 1]"
  let ?s = "run ?sched (start_system 5 3)"
  have lo: "- (2 ^ 53) \<le> (5 :: int)" and hi: "(5 :: int) + int 3 \<le> 2 ^ 53" by simp_all
  note main = C3_nonces_consecutive_while_increment_exact [OF lo hi]
  from main [of ?sched]
  have n: "nonce (shared ?s) = 5 + int (length (acquired ?s))" and h: "holders ?s \<le> 1"
    and v: "\<forall>i<3. nonce_of (callers ?s ! i)
          = (case views i ?sched (start_system 5 3) of [] \<Rightarrow> None
             | m # later \<Rightarrow> map_option fst (getNonce later m))"
    by blast+
  have 8: "nonce (shared ?s) = 8" unfolding n interleaved_example(1) by simp
  from v have "nonce_of (callers ?s ! 1)
          = (case views 1 ?sched (start_system 5 3) of [] \<Rightarrow> None
             | m # later \<Rightarrow> map_option fst (getNonce later m))" by simp
  then have g: "nonce_of (callers ?s ! 1)
       = map_option fst (getNonce
           [\<lparr>locked = True, nonce = 6\<rparr>, \<lparr>locked = True, nonce = 7\<rparr>,
            \<lparr>locked = True, nonce = 7\<rparr>, \<lparr>locked = False, nonce = 7\<rparr>]
           \<lparr>locked = True, nonce = 6\<rparr>)"
    unfolding interleaved_example(3) by simp
  from main [of ?sched]
  have "acquired (run (one_by_one 3) (start_system 5 3)) = map (\<lambda>k. 5 + int k) [0..<3]"
    by blast
  also have "\<dots> = [5, 6, 7]" by (simp add: upt_rec)
  finally have o: "acquired (run (one_by_one 3) (start_system 5 3)) = [5, 6, 7]" .
  from lo hi interleaved_example(1) 8 h g o show ?thesis by (intro conjI)
qed


subsection \<open>The bump\<close>

text \<open>Reading a positive amount of at most \<open>2^24\<close> gwei as a number loses nothing when rounded up.\<close>

lemma Number_gwei_ceiling:
  assumes "0 < base" "base \<le> 2 ^ 24 * 10 ^ 9"
  defines "b \<equiv> (of_int base / 10 ^ 9 :: rat)"
  shows "\<lceil>b\<rceil> \<le> \<lceil>round_binary64 b\<rceil>" "round_binary64 b \<le> 2 ^ 24" "0 < b"
proof -
  show bpos: "0 < b" using assms(1) by (simp add: b_def)
  have ble: "b \<le> 2 ^ 24" using assms(2) by (simp add: b_def pos_divide_le_eq)
  have "b \<le> of_int (2 ^ 24) * 2 powi 0" using ble by simp
  from round_binary64_upper [OF bpos _ _ _ this]
  show "round_binary64 b \<le> 2 ^ 24" by simp
  let ?m = "\<lfloor>b\<rfloor>"
  have m0: "0 \<le> ?m" using bpos by simp
  have "?m \<le> 2 ^ 24" using ble by (simp add: floor_le_iff) 
  then have m53: "?m < 2 ^ 53" by simp
  show "\<lceil>b\<rceil> \<le> \<lceil>round_binary64 b\<rceil>"
  proof (cases "b = of_int ?m")
    case True
    then have "of_int ?m * 2 powi 0 \<le> b" by simp
    from round_binary64_lower [OF bpos m0 m53 _ this] True
    have "b \<le> round_binary64 b" by simp
    then show ?thesis by (rule ceiling_mono)
  next
    case False
    have "of_int ?m \<le> b" by (rule of_int_floor_le)
    with False [symmetric] have "of_int ?m < b" by (rule order.not_eq_order_implies_strict)
    then have "of_int (?m * 10 ^ 9) < (of_int base :: rat)"
      by (simp add: b_def pos_less_divide_eq)
    then have "?m * 10 ^ 9 < base" by (simp only: of_int_less_iff)
    then have "?m * 10 ^ 9 + 1 \<le> base" by simp
    then have "of_int (?m * 10 ^ 9 + 1) \<le> (of_int base :: rat)" by (simp only: of_int_le_iff)
    then have frac: "of_int ?m + 1 / 10 ^ 9 \<le> b" by (simp add: b_def field_simps)
    from False ble have "b \<noteq> 2 ^ 24"
      by (metis floor_numeral_power of_int_numeral of_int_power)
    with ble have "b < 2 powi 24" by simp
    with ilog2_bounds(1) [OF bpos] have "(2::rat) powi (ilog2 b) < 2 powi 24" by (rule le_less_trans)
    then have "ilog2 b < 24" by (rule power_int_le_imp_less_exp [rotated]) simp_all
    then have "max (ilog2 b) (- 1022) - 52 \<le> - 29" by simp
    then have "ulp b \<le> 2 powi (- 29)" unfolding ulp_def by (intro power_int_increasing) simp_all
    with round_binary64_between(3) [of b] frac have "of_int ?m < round_binary64 b"
      by (simp add: power_int_minus)
    then have "?m < \<lceil>round_binary64 b\<rceil>" by (simp add: less_ceiling_iff)
    moreover from False have "\<lceil>b\<rceil> = ?m + 1" by (metis ceiling_altdef)
    ultimately show ?thesis by simp
  qed
qed

text \<open>
  C6, as the specification states it: \<open>bump f \<ge> f\<close> for every fee \<open>f \<ge> 0\<close>. It fails in two
  ways. The factor is whatever number the configuration holds: with 0.5 a fee of 50 gwei
  is bumped to 25 gwei. And the fee passes through a JavaScript number: 2^24 gwei plus
  one wei reads as 16777216, so with factor 1 the bump is one wei below the fee.
\<close>

theorem C6_bump_below_fee:
  "bumpPriority (example_config\<lparr>feeBumpFactor := Finite (1 / 2)\<rparr>) 50000000000
      = Inr 25000000000
   \<and> (25000000000 :: int) < 50000000000
   \<and> bumpPriority (example_config\<lparr>feeBumpFactor := Finite 1\<rparr>) 16777216000000001
      = Inr 16777216000000000
   \<and> (16777216000000000 :: int) < 16777216000000001"
  by code_simp

text \<open>
  C6, amended: for every fee from 0 to 2^24 gwei and every finite factor from 1 to 2^28,
  the bump returns: it reads the fee in gwei as a number, multiplies by the factor in
  binary64 arithmetic, rounds up to a whole number \<open>g\<close> of gwei, and the result \<open>g\<close> gwei
  is at least the fee (and at most 2^52 gwei, where printing and parsing the number is
  exact). Being a function of the configuration and the fee, the bump is deterministic.
\<close>

theorem C6_bump_at_least_fee:
  assumes "feeBumpFactor c = Finite f" "1 \<le> f" "f \<le> 2 ^ 28"
    and "0 \<le> base" "base \<le> 2 ^ 24 * gwei"
  shows "\<exists>g. Math_ceil (times_double (Number_formatUnits_gwei base) (feeBumpFactor c))
              = Finite (of_int g)
           \<and> bumpPriority c base = Inr (g * gwei) \<and> base \<le> g * gwei \<and> g \<le> 2 ^ 52"
proof (cases "base = 0")
  case True
  have fits: "fits_fixed512 base" using True by (simp add: fits_fixed512_def)
  from True have "Math_ceil (times_double (Number_formatUnits_gwei base) (feeBumpFactor c)) = Finite (of_int 0)"
    by (simp add: Number_formatUnits_gwei_def toDouble_def assms(1))
  moreover from this fits have "bumpPriority c base = Inr (0 * gwei)"
    by (simp add: bumpPriority_def Let_def)
  ultimately show ?thesis using True by (intro exI [of _ 0]) simp
next
  case False
  with assms(4) have pos: "0 < base" by simp
  define b :: rat where "b = of_int base / 10 ^ 9"
  define x where "x = round_binary64 b"
  define v where "v = round_binary64 (x * f)"
  from assms(5) have le: "base \<le> 2 ^ 24 * 10 ^ 9" by (simp add: gwei_def)
  with pos have fits: "fits_fixed512 base" by (simp add: fits_fixed512_def)
  note nb = Number_gwei_ceiling [OF pos le, folded b_def, folded x_def]
  have n: "Number_formatUnits_gwei base = Finite x"
  proof -
    have "x < 2 powi 1024" using nb(2) by (rule le_less_trans) simp
    from toDouble_pos [OF nb(3) this [unfolded x_def]]
    show ?thesis by (simp add: Number_formatUnits_gwei_def gwei_def b_def x_def)
  qed
  have "0 < \<lceil>b\<rceil>" using nb(3) by simp
  from this nb(1) have "0 < \<lceil>x\<rceil>" by (rule less_le_trans)
  then have xpos: "0 < x" by simp
  with assms(2) have xf: "0 < x * f" "x \<le> x * f" by (simp_all add: mult_le_cancel_left1)
  have "x * f \<le> 2 ^ 24 * 2 ^ 28"
    using nb(2) assms(3) xpos assms(2) by (intro mult_mono) simp_all
  then have "x * f \<le> of_int (2 ^ 52) * 2 powi 0" by simp
  from round_binary64_upper [OF xf(1) _ _ _ this]
  have vle: "v \<le> 2 ^ 52" by (simp add: v_def)
  from round_binary64_is_double [OF nb(3)]
  obtain m k where mk: "x = of_int m * 2 powi k" "0 \<le> m" "m < 2 ^ 53" "- 1074 \<le> k"
    unfolding x_def by blast
  from round_binary64_lower [OF xf(1) mk(2,3,4)] xf(2) mk(1)
  have xv: "x \<le> v" by (simp add: v_def)
  have t: "times_double (Finite x) (Finite f) = Finite v"
  proof -
    have "v < 2 powi 1024" using vle by (rule le_less_trans) simp
    from toDouble_pos [OF xf(1) this [unfolded v_def]] show ?thesis by (simp add: v_def)
  qed
  let ?g = "\<lceil>v\<rceil>"
  have c: "Math_ceil (times_double (Number_formatUnits_gwei base) (feeBumpFactor c))
             = Finite (of_int ?g)"
    by (simp only: n assms(1) t Math_ceil.simps)
  have "v \<le> of_int (2 ^ 52)" using vle by simp
  then have g52: "?g \<le> 2 ^ 52" by (simp only: ceiling_le_iff)
  have g0: "0 \<le> ?g" using xpos xv by (simp add: le_ceiling_iff)
  have "\<bar>of_int ?g :: rat\<bar> < 10 ^ 21"
  proof -
    have "\<bar>of_int ?g :: rat\<bar> = of_int ?g" using g0 by simp
    also have "\<dots> \<le> of_int (2 ^ 52)" using g52 by (simp only: of_int_le_iff)
    also have "\<dots> < 10 ^ 21" by simp
    finally show ?thesis .
  qed
  with c fits have bp: "bumpPriority c base = Inr (?g * gwei)"
    by (simp add: bumpPriority_def Let_def)
  have "b \<le> of_int \<lceil>b\<rceil>" by (rule le_of_int_ceiling)
  also have "\<dots> \<le> of_int \<lceil>x\<rceil>" using nb(1) by (simp only: of_int_le_iff)
  also have "\<dots> \<le> of_int ?g" using xv by (simp add: ceiling_mono)
  finally have "of_int base \<le> (of_int (?g * 10 ^ 9) :: rat)"
    by (simp add: b_def pos_divide_le_eq)
  then have "base \<le> ?g * gwei" by (simp only: of_int_le_iff gwei_def)
  with c bp g52 show ?thesis by blast
qed

text \<open>The witness: 50 gwei times 1.5 is 75 gwei.\<close>

theorem C6_bump_at_least_fee_witness:
  "\<exists>g. Math_ceil (times_double (Number_formatUnits_gwei 50000000000)
            (feeBumpFactor example_config)) = Finite (of_int g)
       \<and> bumpPriority example_config 50000000000 = Inr (g * gwei)
       \<and> 50000000000 \<le> g * gwei \<and> g \<le> 2 ^ 52"
  using C6_bump_at_least_fee [of example_config "3 / 2" 50000000000]
  by (simp add: example_config_def gwei_def)

end
